theory Spec2Isabelle
  imports Complex_Main
begin

section \<open>Data model (src/types.ts)\<close>

text \<open>
  The coordination layer of the multi-agent system: \<open>MCPServer\<close> (worker registry, task
  dispatcher, message router, shared context and artifact store) and
  \<open>WorkflowOrchestrator\<close> (the sequencer). Field names follow the TypeScript interfaces; a
  field whose name occurs in several interfaces, or is taken in HOL, carries the name of its
  interface as a prefix.

  Conventions of the embedding:
  \<^item> \<open>Date\<close> is milliseconds since the epoch; every \<open>new Date()\<close> and every
    \<open>crypto.randomUUID()\<close> of the source is an argument of the modelled function, since the
    value comes from the environment.
  \<^item> A JavaScript \<open>Map\<close> is an association list in insertion order (\<open>Map_set\<close> replaces the
    value of a key that is present in place and appends a new key at the end).
  \<^item> Objects are values: a method that mutates \<open>this\<close> or an argument returns the new value.
    A task object that the source holds in several places (the caller's variable, the task
    queue, a collection) is one value in each place; the statements about the collections
    speak of ids, of the pending entries and of the entry appended last, which are the same
    under both readings.
  \<^item> \<open>console.log\<close> output is not modelled.
\<close>

type_synonym Date = nat

datatype AgentRole =
    ProductManager | Architect | BackendDeveloper | FrontendDeveloper
  | QA | SecurityEngineer | DevOpsEngineer

text \<open>The string value of each member of the \<open>AgentRole\<close> enum, as a template literal prints it.\<close>

fun AgentRole_string :: "AgentRole \<Rightarrow> string" where
  "AgentRole_string ProductManager = ''ProductManager''"
| "AgentRole_string Architect = ''Architect''"
| "AgentRole_string BackendDeveloper = ''BackendDeveloper''"
| "AgentRole_string FrontendDeveloper = ''FrontendDeveloper''"
| "AgentRole_string QA = ''QA''"
| "AgentRole_string SecurityEngineer = ''SecurityEngineer''"
| "AgentRole_string DevOpsEngineer = ''DevOpsEngineer''"

text \<open>
  \<open>toRole as AgentRole\<close>: a cast does nothing at run time, so a string that is no value of the
  enum is a key that no \<open>Map<AgentRole, _>\<close> holds.
\<close>

definition as_AgentRole :: "string \<Rightarrow> AgentRole option" where
  "as_AgentRole s =
     find (\<lambda>r. AgentRole_string r = s)
       [ProductManager, Architect, BackendDeveloper, FrontendDeveloper,
        QA, SecurityEngineer, DevOpsEngineer]"

datatype TaskStatus = Pending | InProgress | Completed | Failed | Blocked

datatype Priority = high | medium | low

record AgentResponse =
  response_agentId :: string
  agentRole :: AgentRole
  taskId :: "string option"
  response :: string
  confidence :: real
  suggestedNextSteps :: "string list option"
  errors :: "string list option"

text \<open>Values of TypeScript type \<open>unknown\<close> that the system stores in its maps.\<close>

datatype Unknown =
    UString string
  | UResponse AgentResponse
  | UResponses "AgentResponse list"

type_synonym ('k, 'v) Map = "('k \<times> 'v) list"

fun Map_set :: "'k \<Rightarrow> 'v \<Rightarrow> ('k, 'v) Map \<Rightarrow> ('k, 'v) Map" where
  "Map_set k v [] = [(k, v)]"
| "Map_set k v ((k', v') # m) = (if k' = k then (k, v) # m else (k', v') # Map_set k v m)"

definition Map_get :: "('k, 'v) Map \<Rightarrow> 'k \<Rightarrow> 'v option" where
  "Map_get m k = map_of m k"

definition Map_values :: "('k, 'v) Map \<Rightarrow> 'v list" where
  "Map_values m = map snd m"

record Message =
  msg_id :: string
  msg_from :: string
  msg_to :: "string list"
  subject :: string
  content :: string
  timestamp :: Date
  metadata :: "(string, Unknown) Map option"

record Task =
  task_id :: string
  title :: string
  task_description :: string
  assignedTo :: "AgentRole list"
  status :: TaskStatus
  priority :: Priority
  dependencies :: "string list option"
  task_output :: "string option"
  task_createdAt :: Date
  completedAt :: "Date option"

record WorkflowStage =
  stage_id :: string
  stage_name :: string
  primaryAgent :: AgentRole
  supportingAgents :: "AgentRole list option"
  tasks :: "Task list"
  successCriteria :: "string list"

record WorkflowDefinition =
  workflow_id :: string
  workflow_name :: string
  workflow_description :: string
  initialPrompt :: string
  stages :: "WorkflowStage list"
  workflow_createdAt :: Date

record CompanyState =
  company_id :: string
  company_name :: string
  company_createdAt :: Date
  company_currentWorkflow :: "WorkflowDefinition option"
  completedTasks :: "Task list"
  pendingTasks :: "Task list"
  messageHistory :: "Message list"
  artifacts :: "(string, Unknown) Map"

section \<open>Workers (src/agents/BaseAgent.ts)\<close>

text \<open>
  \<open>AgentContext.sharedContext\<close> is a reference to the \<open>sharedContext\<close> map of the server
  the agent was registered with; the model names that map by the id of the server that owns
  it.
\<close>

type_synonym MapRef = string

record AgentContext =
  agentId :: string
  agentName :: string
  role :: AgentRole
  capabilities :: "string list"
  memory :: "(string, Unknown) Map"
  context_sharedContext :: "MapRef option"

text \<open>
  \<open>BaseAgent\<close> is abstract in \<open>execute(task)\<close>, which returns an \<open>AgentResponse\<close> or throws.
  The model carries each worker's \<open>execute\<close> as a function of the task it is given (the seven
  agents of the repository compute their response from the task alone); \<open>Inl\<close> is the thrown
  error, printed as a string.
\<close>

record BaseAgent =
  agent_context :: AgentContext
  agent_messageQueue :: "Message list"
  execute :: "Task \<Rightarrow> string + AgentResponse"

definition getContext :: "BaseAgent \<Rightarrow> AgentContext" where
  "getContext agent = agent_context agent"

definition setSharedContext :: "BaseAgent \<Rightarrow> MapRef \<Rightarrow> BaseAgent" where
  "setSharedContext agent ref =
     agent\<lparr>agent_context := (agent_context agent)\<lparr>context_sharedContext := Some ref\<rparr>\<rparr>"

definition receiveMessage :: "BaseAgent \<Rightarrow> Message \<Rightarrow> BaseAgent" where
  "receiveMessage agent message =
     agent\<lparr>agent_messageQueue := agent_messageQueue agent @ [message]\<rparr>"

definition getMessages :: "BaseAgent \<Rightarrow> Message list" where
  "getMessages agent = agent_messageQueue agent"

definition clearMessages :: "BaseAgent \<Rightarrow> BaseAgent" where
  "clearMessages agent = agent\<lparr>agent_messageQueue := []\<rparr>"

section \<open>The coordinator (src/server/MCPServer.ts)\<close>

record MCPServer =
  agents :: "(AgentRole, BaseAgent) Map"
  companyState :: CompanyState
  messageQueue :: "Message list"
  taskQueue :: "Task list"
  sharedContext :: "(string, Unknown) Map"

text \<open>The constructor; \<open>None\<close> for the company name is the omitted argument.\<close>

definition new_MCPServer :: "string \<Rightarrow> string option \<Rightarrow> Date \<Rightarrow> MCPServer" where
  "new_MCPServer uuid companyName now =
     \<lparr>agents = [],
      companyState =
        \<lparr>company_id = uuid,
         company_name = (case companyName of None \<Rightarrow> ''AI Software Company'' | Some n \<Rightarrow> n),
         company_createdAt = now,
         company_currentWorkflow = None,
         completedTasks = [],
         pendingTasks = [],
         messageHistory = [],
         artifacts = []\<rparr>,
      messageQueue = [],
      taskQueue = [],
      sharedContext = []\<rparr>"

definition registerAgent :: "MCPServer \<Rightarrow> BaseAgent \<Rightarrow> MCPServer" where
  "registerAgent s agent =
     (let r = role (getContext agent)
      in s\<lparr>agents :=
             Map_set r (setSharedContext agent (company_id (companyState s))) (agents s)\<rparr>)"

definition getAgent :: "MCPServer \<Rightarrow> AgentRole \<Rightarrow> BaseAgent option" where
  "getAgent s r = Map_get (agents s) r"

definition getAllAgents :: "MCPServer \<Rightarrow> BaseAgent list" where
  "getAllAgents s = Map_values (agents s)"

text \<open>
  The loop of \<open>routeMessage\<close> over \<open>message.to\<close>. \<open>agent.receiveMessage\<close> mutates the agent
  the registry holds, so the model writes the agent back under its key.
\<close>

fun deliver :: "Message \<Rightarrow> string list \<Rightarrow> (AgentRole, BaseAgent) Map \<Rightarrow> (AgentRole, BaseAgent) Map" where
  "deliver message [] ags = ags"
| "deliver message (toRole # rest) ags =
     (case as_AgentRole toRole of
        None \<Rightarrow> deliver message rest ags
      | Some r \<Rightarrow>
          (case Map_get ags r of
             None \<Rightarrow> deliver message rest ags
           | Some agent \<Rightarrow> deliver message rest (Map_set r (receiveMessage agent message) ags)))"

definition routeMessage :: "MCPServer \<Rightarrow> Message \<Rightarrow> MCPServer" where
  "routeMessage s message =
     (let s1 = s\<lparr>companyState :=
                  (companyState s)\<lparr>messageHistory :=
                     messageHistory (companyState s) @ [message]\<rparr>\<rparr>
      in s1\<lparr>agents := deliver message (msg_to message) (agents s1)\<rparr>)"

text \<open>\<open>createTask\<close>; \<open>None\<close> for the priority is the omitted argument, whose default is "medium".\<close>

definition createTask ::
  "MCPServer \<Rightarrow> string \<Rightarrow> string \<Rightarrow> AgentRole list \<Rightarrow> Priority option \<Rightarrow> string \<Rightarrow> Date
     \<Rightarrow> Task \<times> MCPServer" where
  "createTask s title' description' assignedTo' priority' uuid now =
     (let task =
            \<lparr>task_id = uuid,
             title = title',
             task_description = description',
             assignedTo = assignedTo',
             status = Pending,
             priority = (case priority' of None \<Rightarrow> medium | Some p \<Rightarrow> p),
             dependencies = None,
             task_output = None,
             task_createdAt = now,
             completedAt = None\<rparr>
      in (task,
          s\<lparr>taskQueue := taskQueue s @ [task],
            companyState :=
              (companyState s)\<lparr>pendingTasks := pendingTasks (companyState s) @ [task]\<rparr>\<rparr>))"

text \<open>\<open>Array.prototype.findIndex\<close>: the index of the first element that satisfies \<open>P\<close>, or -1.\<close>

fun findIndexFrom :: "('a \<Rightarrow> bool) \<Rightarrow> 'a list \<Rightarrow> int \<Rightarrow> int" where
  "findIndexFrom P [] i = -1"
| "findIndexFrom P (x # xs) i = (if P x then i else findIndexFrom P xs (i + 1))"

definition findIndex :: "('a \<Rightarrow> bool) \<Rightarrow> 'a list \<Rightarrow> int" where
  "findIndex P xs = findIndexFrom P xs 0"

text \<open>\<open>xs.splice(i, 1)\<close> for an index \<open>i \<ge> 0\<close>: the array without its element at \<open>i\<close>.\<close>

definition splice1 :: "int \<Rightarrow> 'a list \<Rightarrow> 'a list" where
  "splice1 i xs = take (nat i) xs @ drop (nat i + 1) xs"

text \<open>
  The key under which \<open>executeTask\<close> stores a response: the template literal
  \<open>`task_${task.id}_${role}`\<close>.
\<close>

definition task_key :: "string \<Rightarrow> AgentRole \<Rightarrow> string" where
  "task_key tid r = ''task_'' @ tid @ ''_'' @ AgentRole_string r"

text \<open>
  The loop of \<open>executeTask\<close> over \<open>task.assignedTo\<close>; its state is the list \<open>responses\<close> and
  the shared context. A role without an agent is passed over; an \<open>execute\<close> that throws is
  caught, and the catch block only logs.
\<close>

fun executeRoles ::
  "(AgentRole, BaseAgent) Map \<Rightarrow> Task \<Rightarrow> AgentRole list
     \<Rightarrow> AgentResponse list \<times> (string, Unknown) Map
     \<Rightarrow> AgentResponse list \<times> (string, Unknown) Map" where
  "executeRoles ags task [] (responses, ctx) = (responses, ctx)"
| "executeRoles ags task (r # rest) (responses, ctx) =
     (case Map_get ags r of
        None \<Rightarrow> executeRoles ags task rest (responses, ctx)
      | Some agent \<Rightarrow>
          (case execute agent task of
             Inr resp \<Rightarrow>
               executeRoles ags task rest
                 (responses @ [resp], Map_set (task_key (task_id task) r) (UResponse resp) ctx)
           | Inl error \<Rightarrow> executeRoles ags task rest (responses, ctx)))"

text \<open>
  \<open>executeTask\<close> returns the responses; the task it was given (mutated in the source) and the
  server are returned beside them.
\<close>

definition executeTask :: "MCPServer \<Rightarrow> Task \<Rightarrow> Date \<Rightarrow> AgentResponse list \<times> Task \<times> MCPServer" where
  "executeTask s task now =
     (let task1 = task\<lparr>status := InProgress\<rparr>;
          (responses, ctx) = executeRoles (agents s) task1 (assignedTo task1) ([], sharedContext s);
          task2 = task1\<lparr>status := Completed, completedAt := Some now\<rparr>;
          pending = pendingTasks (companyState s);
          pendingIndex = findIndex (\<lambda>t. task_id t = task_id task2) pending;
          pending' = (if pendingIndex > -1 then splice1 pendingIndex pending else pending)
      in (responses, task2,
          s\<lparr>sharedContext := ctx,
            companyState :=
              (companyState s)\<lparr>pendingTasks := pending',
                                completedTasks := completedTasks (companyState s) @ [task2]\<rparr>\<rparr>))"

definition updateSharedContext :: "MCPServer \<Rightarrow> string \<Rightarrow> Unknown \<Rightarrow> MCPServer" where
  "updateSharedContext s key v = s\<lparr>sharedContext := Map_set key v (sharedContext s)\<rparr>"

definition getSharedContextValue :: "MCPServer \<Rightarrow> string \<Rightarrow> Unknown option" where
  "getSharedContextValue s key = Map_get (sharedContext s) key"

definition storeArtifact :: "MCPServer \<Rightarrow> string \<Rightarrow> Unknown \<Rightarrow> MCPServer" where
  "storeArtifact s name' content' =
     s\<lparr>companyState :=
         (companyState s)\<lparr>artifacts := Map_set name' content' (artifacts (companyState s))\<rparr>\<rparr>"

definition getArtifact :: "MCPServer \<Rightarrow> string \<Rightarrow> Unknown option" where
  "getArtifact s name' = Map_get (artifacts (companyState s)) name'"

definition getMessageHistory :: "MCPServer \<Rightarrow> Message list" where
  "getMessageHistory s = messageHistory (companyState s)"

definition getPendingTasks :: "MCPServer \<Rightarrow> Task list" where
  "getPendingTasks s = pendingTasks (companyState s)"

definition getCompletedTasks :: "MCPServer \<Rightarrow> Task list" where
  "getCompletedTasks s = completedTasks (companyState s)"

section \<open>The sequencer (src/orchestrator/WorkflowOrchestrator.ts)\<close>

text \<open>
  The orchestrator holds a reference to its \<open>MCPServer\<close>; in the model the server is an
  argument and a result of \<open>executeWorkflow\<close>, beside the orchestrator itself.
\<close>

record WorkflowOrchestrator =
  currentWorkflow :: "WorkflowDefinition option"
  stageIndex :: nat

datatype Error = Error string

definition new_WorkflowOrchestrator :: WorkflowOrchestrator where
  "new_WorkflowOrchestrator = \<lparr>currentWorkflow = None, stageIndex = 0\<rparr>"

definition defineWorkflow ::
  "WorkflowOrchestrator \<Rightarrow> string \<Rightarrow> string \<Rightarrow> string \<Rightarrow> WorkflowStage list \<Rightarrow> string \<Rightarrow> Date
     \<Rightarrow> WorkflowDefinition \<times> WorkflowOrchestrator" where
  "defineWorkflow orch name' description' initialPrompt' stages' uuid now =
     (let workflow =
            \<lparr>workflow_id = uuid,
             workflow_name = name',
             workflow_description = description',
             initialPrompt = initialPrompt',
             stages = stages',
             workflow_createdAt = now\<rparr>
      in (workflow, orch\<lparr>currentWorkflow := Some workflow, stageIndex := 0\<rparr>))"

definition createStage ::
  "string \<Rightarrow> string \<Rightarrow> AgentRole \<Rightarrow> Task list \<Rightarrow> string list \<Rightarrow> AgentRole list option
     \<Rightarrow> WorkflowStage" where
  "createStage id' name' primaryAgent' tasks' successCriteria' supportingAgents' =
     \<lparr>stage_id = id',
      stage_name = name',
      primaryAgent = primaryAgent',
      supportingAgents = supportingAgents',
      tasks = tasks',
      successCriteria = successCriteria'\<rparr>"

text \<open>The key of a stage's results: the template literal \<open>`stage_${stage.id}_results`\<close>.\<close>

definition stage_key :: "string \<Rightarrow> string" where
  "stage_key sid = ''stage_'' @ sid @ ''_results''"

text \<open>
  The inner loop of \<open>executeWorkflow\<close> over \<open>stage.tasks\<close>. Each \<open>executeTask\<close> reads the
  clock once; \<open>clock n\<close> is the \<open>n\<close>-th reading since \<open>executeWorkflow\<close> began. The tasks
  come back as \<open>executeTask\<close> left them.
\<close>

fun executeStageTasks ::
  "MCPServer \<Rightarrow> (nat \<Rightarrow> Date) \<Rightarrow> nat \<Rightarrow> Task list \<Rightarrow> AgentResponse list
     \<Rightarrow> AgentResponse list \<times> Task list \<times> MCPServer \<times> nat" where
  "executeStageTasks s clock n [] stageResponses = (stageResponses, [], s, n)"
| "executeStageTasks s clock n (task # rest) stageResponses =
     (case executeTask s task (clock n) of
        (responses, task', s') \<Rightarrow>
          (case executeStageTasks s' clock (n + 1) rest (stageResponses @ responses) of
             (stageResponses', rest', s'', n') \<Rightarrow> (stageResponses', task' # rest', s'', n')))"

text \<open>The outer loop over \<open>currentWorkflow.stages\<close>; \<open>workflowResults\<close> is a \<open>Map\<close>.\<close>

fun executeStages ::
  "MCPServer \<Rightarrow> (nat \<Rightarrow> Date) \<Rightarrow> nat \<Rightarrow> WorkflowStage list \<Rightarrow> (string, AgentResponse list) Map
     \<Rightarrow> (string, AgentResponse list) Map \<times> WorkflowStage list \<times> MCPServer \<times> nat" where
  "executeStages s clock n [] workflowResults = (workflowResults, [], s, n)"
| "executeStages s clock n (stage # rest) workflowResults =
     (case executeStageTasks s clock n (tasks stage) [] of
        (stageResponses, tasks', s1, n1) \<Rightarrow>
          (let workflowResults1 = Map_set (stage_id stage) stageResponses workflowResults;
               s2 = updateSharedContext s1 (stage_key (stage_id stage)) (UResponses stageResponses)
           in (case executeStages s2 clock n1 rest workflowResults1 of
                 (workflowResults', rest', s3, n3) \<Rightarrow>
                   (workflowResults', stage\<lparr>tasks := tasks'\<rparr> # rest', s3, n3))))"

text \<open>
  \<open>executeWorkflow\<close>: the first component is the thrown error or the returned map; the
  orchestrator and the server after the call are returned in both cases.
\<close>

definition executeWorkflow ::
  "WorkflowOrchestrator \<Rightarrow> MCPServer \<Rightarrow> (nat \<Rightarrow> Date)
     \<Rightarrow> (Error + (string, AgentResponse list) Map) \<times> WorkflowOrchestrator \<times> MCPServer" where
  "executeWorkflow orch s clock =
     (case currentWorkflow orch of
        None \<Rightarrow> (Inl (Error ''No workflow defined''), orch, s)
      | Some workflow \<Rightarrow>
          (case executeStages s clock 0 (stages workflow) [] of
             (workflowResults, stages', s', n) \<Rightarrow>
               (Inr workflowResults,
                orch\<lparr>currentWorkflow := Some (workflow\<lparr>stages := stages'\<rparr>)\<rparr>,
                s')))"

definition getCurrentWorkflow :: "WorkflowOrchestrator \<Rightarrow> WorkflowDefinition option" where
  "getCurrentWorkflow orch = currentWorkflow orch"

section \<open>Notions used in the statements\<close>

text \<open>The list without its first element that satisfies \<open>P\<close>, if there is one.\<close>

fun without_first :: "('a \<Rightarrow> bool) \<Rightarrow> 'a list \<Rightarrow> 'a list" where
  "without_first P [] = []"
| "without_first P (x # xs) = (if P x then xs else x # without_first P xs)"

text \<open>The response that the worker registered for \<open>r\<close> returns for \<open>task\<close>, if any.\<close>

definition produced :: "(AgentRole, BaseAgent) Map \<Rightarrow> Task \<Rightarrow> AgentRole \<Rightarrow> AgentResponse option" where
  "produced ags task r =
     (case Map_get ags r of
        None \<Rightarrow> None
      | Some agent \<Rightarrow> (case execute agent task of Inl error \<Rightarrow> None | Inr resp \<Rightarrow> Some resp))"

text \<open>
  A role responds to a task when a worker is registered for it and that worker's \<open>execute\<close>,
  given the task as \<open>executeTask\<close> hands it over (status InProgress), returns.
\<close>

definition responds :: "MCPServer \<Rightarrow> Task \<Rightarrow> AgentRole \<Rightarrow> bool" where
  "responds s task r =
     (case getAgent s r of
        None \<Rightarrow> False
      | Some agent \<Rightarrow>
          (case execute agent (task\<lparr>status := InProgress\<rparr>) of Inl error \<Rightarrow> False | Inr resp \<Rightarrow> True))"

text \<open>
  The registry as \<open>registerAgent\<close> builds it: a \<open>Map\<close> has each key once, and every worker
  sits under the role it declares.
\<close>

definition registry_ok :: "MCPServer \<Rightarrow> bool" where
  "registry_ok s =
     (distinct (map fst (agents s)) \<and> list_all (\<lambda>(k, agent). role (getContext agent) = k) (agents s))"

section \<open>Sequences of calls\<close>

text \<open>
  The calls a client can make on a server, for statements about every state the server can
  be in. Values that the source draws from the environment (ids, clock readings) travel with
  the call.
\<close>

datatype Call =
    RegisterAgent BaseAgent
  | RouteMessage Message
  | CreateTask string string "AgentRole list" "Priority option" string Date
  | ExecuteTask Task Date
  | UpdateSharedContext string Unknown
  | StoreArtifact string Unknown
  | ExecuteWorkflow WorkflowOrchestrator "nat \<Rightarrow> Date"

fun call :: "MCPServer \<Rightarrow> Call \<Rightarrow> MCPServer" where
  "call s (RegisterAgent agent) = registerAgent s agent"
| "call s (RouteMessage message) = routeMessage s message"
| "call s (CreateTask title' description' assignedTo' priority' uuid now) =
     snd (createTask s title' description' assignedTo' priority' uuid now)"
| "call s (ExecuteTask task now) = snd (snd (executeTask s task now))"
| "call s (UpdateSharedContext key v) = updateSharedContext s key v"
| "call s (StoreArtifact name' content') = storeArtifact s name' content'"
| "call s (ExecuteWorkflow orch clock) = snd (snd (executeWorkflow orch s clock))"

text \<open>The server after a sequence of calls.\<close>

fun calls :: "MCPServer \<Rightarrow> Call list \<Rightarrow> MCPServer" where
  "calls s [] = s"
| "calls s (c # cs) = calls (call s c) cs"

text \<open>The ids of the tasks in the pending and in the completed collection.\<close>

definition pending_ids :: "MCPServer \<Rightarrow> string set" where
  "pending_ids s = set (map task_id (getPendingTasks s))"

definition completed_ids :: "MCPServer \<Rightarrow> string set" where
  "completed_ids s = set (map task_id (getCompletedTasks s))"

text \<open>
  \<open>crypto.randomUUID()\<close> returns an id that is in use nowhere: each \<open>createTask\<close> of the
  sequence gets an id that no pending and no completed task has at that moment.
\<close>

fun uuids_fresh :: "MCPServer \<Rightarrow> Call list \<Rightarrow> bool" where
  "uuids_fresh s [] = True"
| "uuids_fresh s (CreateTask title' description' assignedTo' priority' uuid now # cs) =
     (uuid \<notin> pending_ids s \<and> uuid \<notin> completed_ids s
      \<and> uuids_fresh (call s (CreateTask title' description' assignedTo' priority' uuid now)) cs)"
| "uuids_fresh s (c # cs) = uuids_fresh (call s c) cs"

text \<open>The ids of the tasks that the \<open>createTask\<close> calls of a sequence create.\<close>

fun created_ids :: "Call list \<Rightarrow> string list" where
  "created_ids [] = []"
| "created_ids (CreateTask title' description' assignedTo' priority' uuid now # cs) =
     uuid # created_ids cs"
| "created_ids (c # cs) = created_ids cs"

text \<open>The invariant of the two task collections.\<close>

definition tasks_inv :: "MCPServer \<Rightarrow> bool" where
  "tasks_inv s =
     (distinct (map task_id (getPendingTasks s)) \<and> pending_ids s \<inter> completed_ids s = {})"

text \<open>
  From \<open>s\<close> to \<open>s'\<close> no id left the completed collection, every id of the two
  collections is still in one of them, and the invariant holds afterwards.
\<close>

definition moved :: "MCPServer \<Rightarrow> MCPServer \<Rightarrow> bool" where
  "moved s s' =
     (tasks_inv s'
      \<and> completed_ids s \<subseteq> completed_ids s'
      \<and> pending_ids s \<union> completed_ids s \<subseteq> pending_ids s' \<union> completed_ids s')"

section \<open>Example values\<close>

text \<open>
  A worker as the agents of the repository build one: the \<open>BaseAgent\<close> constructor with an
  empty memory and inbox, and an \<open>execute\<close>.
\<close>

definition new_Agent ::
  "string \<Rightarrow> string \<Rightarrow> AgentRole \<Rightarrow> string list \<Rightarrow> (Task \<Rightarrow> string + AgentResponse) \<Rightarrow> BaseAgent" where
  "new_Agent agentId' agentName' role' capabilities' execute' =
     \<lparr>agent_context =
        \<lparr>agentId = agentId',
         agentName = agentName',
         role = role',
         capabilities = capabilities',
         memory = [],
         context_sharedContext = None\<rparr>,
      agent_messageQueue = [],
      execute = execute'\<rparr>"

text \<open>An \<open>execute\<close> that answers as the repository's agents do, and one that throws.\<close>

definition answering :: "string \<Rightarrow> AgentRole \<Rightarrow> Task \<Rightarrow> string + AgentResponse" where
  "answering agentId' role' task =
     Inr \<lparr>response_agentId = agentId',
          agentRole = role',
          taskId = Some (task_id task),
          response = ''analysis of '' @ task_description task,
          confidence = 0.85,
          suggestedNextSteps = Some [''Review''],
          errors = None\<rparr>"

definition throwing :: "string \<Rightarrow> Task \<Rightarrow> string + AgentResponse" where
  "throwing message task = Inl message"

definition example_task :: "string \<Rightarrow> AgentRole list \<Rightarrow> Task" where
  "example_task tid roles =
     \<lparr>task_id = tid,
      title = ''Plan'',
      task_description = ''desc'',
      assignedTo = roles,
      status = Pending,
      priority = high,
      dependencies = None,
      task_output = None,
      task_createdAt = 1000,
      completedAt = None\<rparr>"


definition planner :: BaseAgent where
  "planner = new_Agent ''pm-agent-001'' ''Product Manager'' ProductManager
               [''requirement_gathering''] (answering ''pm-agent-001'' ProductManager)"

definition second_planner :: BaseAgent where
  "second_planner = new_Agent ''pm-agent-002'' ''Product Manager'' ProductManager
                      [''roadmap_planning''] (answering ''pm-agent-002'' ProductManager)"

definition failing_verifier :: BaseAgent where
  "failing_verifier = new_Agent ''qa-agent-001'' ''QA Engineer'' QA
                        [''test_planning''] (throwing ''timeout'')"

text \<open>A server with a planner that answers and a verifier whose \<open>execute\<close> throws.\<close>

definition example_server :: MCPServer where
  "example_server =
     registerAgent (registerAgent (new_MCPServer ''srv-1'' None 0) planner) failing_verifier"

definition planner_response :: "string \<Rightarrow> AgentResponse" where
  "planner_response tid =
     \<lparr>response_agentId = ''pm-agent-001'',
      agentRole = ProductManager,
      taskId = Some tid,
      response = ''analysis of desc'',
      confidence = 0.85,
      suggestedNextSteps = Some [''Review''],
      errors = None\<rparr>"

definition example_message :: "string \<Rightarrow> string list \<Rightarrow> Message" where
  "example_message mid recipients =
     \<lparr>msg_id = mid,
      msg_from = ''Architect'',
      msg_to = recipients,
      subject = ''Design ready'',
      content = ''See the design document'',
      timestamp = 1500,
      metadata = None\<rparr>"

text \<open>A client session, a workflow of two stages and a clock.\<close>

definition example_calls :: "Call list" where
  "example_calls =
     [RegisterAgent failing_verifier,
      CreateTask ''Plan'' ''desc'' [QA] None ''uuid-1'' 1000,
      ExecuteTask (fst (createTask (new_MCPServer ''srv-1'' None 0) ''Plan'' ''desc'' [QA] None ''uuid-1'' 1000))
        2000]"

definition architect :: BaseAgent where
  "architect = new_Agent ''arch-agent-001'' ''System Architect'' Architect
                 [''architecture_design''] (answering ''arch-agent-001'' Architect)"

definition architect_response :: "string \<Rightarrow> AgentResponse" where
  "architect_response tid =
     \<lparr>response_agentId = ''arch-agent-001'',
      agentRole = Architect,
      taskId = Some tid,
      response = ''analysis of desc'',
      confidence = 0.85,
      suggestedNextSteps = Some [''Review''],
      errors = None\<rparr>"

text \<open>The example server with an architect that answers as well.\<close>

definition staffed_server :: MCPServer where
  "staffed_server = registerAgent example_server architect"

text \<open>A worker that declares the role QA and answers under the role ProductManager.\<close>

definition mislabelled_verifier :: BaseAgent where
  "mislabelled_verifier = new_Agent ''qa-agent-002'' ''QA Engineer'' QA
                            [''test_planning''] (answering ''qa-agent-002'' ProductManager)"

definition planning_stage :: WorkflowStage where
  "planning_stage =
     createStage ''S1'' ''Planning'' ProductManager
       [example_task ''task-001'' [ProductManager],
        example_task ''task-002'' [Architect, QA, ProductManager]]
       [''Requirements documented''] None"

definition verification_stage :: WorkflowStage where
  "verification_stage =
     createStage ''S2'' ''Verification'' QA
       [example_task ''task-003'' [QA, ProductManager]] [''Test plan written''] None"

text \<open>A second stage that reuses the id of the planning stage.\<close>

definition repeated_stage :: WorkflowStage where
  "repeated_stage =
     createStage ''S1'' ''Planning again'' ProductManager
       [example_task ''task-009'' [ProductManager]] [''Requirements revised''] None"

definition repeated_id_orchestrator :: WorkflowOrchestrator where
  "repeated_id_orchestrator =
     snd (defineWorkflow new_WorkflowOrchestrator ''Replan'' ''Plan twice'' ''prompt''
            [planning_stage, repeated_stage] ''wf-2'' 600)"

definition example_stages :: "WorkflowStage list" where
  "example_stages = [planning_stage, verification_stage]"

definition example_orchestrator :: WorkflowOrchestrator where
  "example_orchestrator =
     snd (defineWorkflow new_WorkflowOrchestrator ''Build'' ''Build the product'' ''prompt''
            example_stages ''wf-1'' 500)"

definition example_clock :: "nat \<Rightarrow> Date" where
  "example_clock n = 5000 + n"

section \<open>Lemmas about the model\<close>

lemmas example_defs =
  example_server_def planner_def second_planner_def failing_verifier_def new_Agent_def
  new_MCPServer_def registerAgent_def getContext_def setSharedContext_def getAgent_def
  Map_get_def answering_def throwing_def example_task_def planner_response_def Let_def
  architect_def architect_response_def staffed_server_def mislabelled_verifier_def

lemma Map_get_Map_set: "Map_get (Map_set k v m) k' = (if k' = k then Some v else Map_get m k')"
  by (induction m) (auto simp: Map_get_def)

lemma map_fst_Map_set:
  "map fst (Map_set k v m) = (if k \<in> set (map fst m) then map fst m else map fst m @ [k])"
  by (induction m) (auto simp: rev_image_eqI)

lemma Map_set_keys_distinct: "distinct (map fst m) \<Longrightarrow> distinct (map fst (Map_set k v m))"
  by (induction m) (auto simp: map_fst_Map_set)

lemma set_Map_set: "set (Map_set k v m) \<subseteq> insert (k, v) (set m)"
  by (induction m) (auto split: if_splits)

lemma findIndexFrom_bounds:
  "0 \<le> i \<Longrightarrow> findIndexFrom P xs i = -1 \<or> i \<le> findIndexFrom P xs i"
proof (induction xs arbitrary: i)
  case Nil
  then show ?case by simp
next
  case (Cons x xs)
  from Cons.IH[of "i + 1"] Cons.prems show ?case by auto
qed

lemma findIndexFrom_none: "0 \<le> i \<Longrightarrow> (findIndexFrom P xs i = -1) = (\<forall>x\<in>set xs. \<not> P x)"
proof (induction xs arbitrary: i)
  case Nil
  then show ?case by simp
next
  case (Cons x xs)
  then show ?case by auto
qed

lemma findIndexFrom_shift:
  "0 \<le> i \<Longrightarrow> \<exists>x\<in>set xs. P x \<Longrightarrow> findIndexFrom P xs i = i + findIndexFrom P xs 0"
proof (induction xs arbitrary: i)
  case Nil
  then show ?case by simp
next
  case (Cons x xs)
  show ?case
  proof (cases "P x")
    case True
    then show ?thesis by simp
  next
    case False
    with Cons.prems have ex: "\<exists>x\<in>set xs. P x" by auto
    have "findIndexFrom P xs (i + 1) = (i + 1) + findIndexFrom P xs 0"
      using Cons.IH[of "i + 1"] Cons.prems(1) ex by simp
    moreover have "findIndexFrom P xs 1 = 1 + findIndexFrom P xs 0"
      using Cons.IH[of 1] ex by simp
    ultimately show ?thesis using False by simp
  qed
qed

lemma splice_findIndex:
  "(if findIndex P xs > -1 then splice1 (findIndex P xs) xs else xs) = without_first P xs"
proof (induction xs)
  case Nil
  then show ?case by (simp add: findIndex_def splice1_def)
next
  case (Cons x xs)
  show ?case
  proof (cases "P x")
    case True
    then show ?thesis by (simp add: findIndex_def splice1_def)
  next
    case False
    show ?thesis
    proof (cases "\<exists>y\<in>set xs. P y")
      case True
      have nn: "0 \<le> findIndexFrom P xs 0"
        using findIndexFrom_bounds[of 0 P xs] findIndexFrom_none[of 0 P xs] True by auto
      have sh: "findIndexFrom P xs 1 = 1 + findIndexFrom P xs 0"
        using findIndexFrom_shift[of 1 xs P] True by simp
      have "nat (1 + findIndexFrom P xs 0) = Suc (nat (findIndexFrom P xs 0))"
        using nn by simp
      then show ?thesis
        using Cons False nn sh by (simp add: findIndex_def splice1_def)
    next
      case False2: False
      have "findIndexFrom P xs 1 = -1" "findIndexFrom P xs 0 = -1"
        using findIndexFrom_none[of 1 P xs] findIndexFrom_none[of 0 P xs] False2 by auto
      then show ?thesis using False Cons by (simp add: findIndex_def)
    qed
  qed
qed

lemma without_first_absent: "\<forall>x\<in>set xs. \<not> P x \<Longrightarrow> without_first P xs = xs"
  by (induction xs) auto

lemma executeRoles_eq:
  "executeRoles ags task rs (acc, ctx) =
     (acc @ List.map_filter (produced ags task) rs,
      fold (\<lambda>r c. case produced ags task r of
                     None \<Rightarrow> c
                   | Some resp \<Rightarrow> Map_set (task_key (task_id task) r) (UResponse resp) c) rs ctx)"
  by (induction rs arbitrary: acc ctx)
     (auto simp: produced_def split: option.splits sum.splits)

lemma executeTask_eq:
  "executeTask s task now =
     (List.map_filter (produced (agents s) (task\<lparr>status := InProgress\<rparr>)) (assignedTo task),
      task\<lparr>status := Completed, completedAt := Some now\<rparr>,
      s\<lparr>sharedContext :=
          fold (\<lambda>r c. case produced (agents s) (task\<lparr>status := InProgress\<rparr>) r of
                         None \<Rightarrow> c
                       | Some resp \<Rightarrow> Map_set (task_key (task_id task) r) (UResponse resp) c)
            (assignedTo task) (sharedContext s),
        companyState :=
          (companyState s)
            \<lparr>pendingTasks := without_first (\<lambda>t. task_id t = task_id task) (pendingTasks (companyState s)),
             completedTasks :=
               completedTasks (companyState s) @ [task\<lparr>status := Completed, completedAt := Some now\<rparr>]\<rparr>\<rparr>)"
  by (simp add: executeTask_def Let_def executeRoles_eq splice_findIndex del: if_split cong: if_cong option.case_cong)

lemma inj_AgentRole_string: "AgentRole_string r = AgentRole_string r' \<Longrightarrow> r = r'"
  by (cases r; cases r'; simp)

lemma task_key_inj: "task_key tid r = task_key tid r' \<Longrightarrow> r = r'"
  by (simp add: task_key_def inj_AgentRole_string)

lemma fold_store_get:
  "Map_get (fold (\<lambda>r c. case f r of None \<Rightarrow> c
                          | Some resp \<Rightarrow> Map_set (task_key tid r) (UResponse resp) c) rs ctx)
           (task_key tid r)
   = (if r \<in> set rs \<and> f r \<noteq> None then map_option UResponse (f r) else Map_get ctx (task_key tid r))"
proof (induction rs arbitrary: ctx)
  case Nil
  then show ?case by simp
next
  case (Cons x xs)
  show ?case
    by (auto simp: Cons.IH Map_get_Map_set dest: task_key_inj split: option.splits)
qed

lemma set_map_filter: "set (List.map_filter f xs) = {y. \<exists>x\<in>set xs. f x = Some y}"
  by (induction xs) (auto split: option.splits)

lemma map_filter_honest:
  assumes "\<And>r y. r \<in> set rs \<Longrightarrow> f r = Some y \<Longrightarrow> g y = r"
  shows "map g (List.map_filter f rs) = filter (\<lambda>r. f r \<noteq> None) rs"
  using assms by (induction rs) (auto split: option.splits)

lemma as_AgentRole_Some: "as_AgentRole str = Some r \<longleftrightarrow> AgentRole_string r = str"
  by (cases r) (auto simp: as_AgentRole_def split: if_splits)

lemma as_AgentRole_None: "as_AgentRole str = None \<Longrightarrow> AgentRole_string r \<noteq> str"
  using as_AgentRole_Some[of str r] by auto

lemma receive_more:
  "(receiveMessage agent m)\<lparr>agent_messageQueue :=
       agent_messageQueue (receiveMessage agent m) @ replicate n m\<rparr>
   = agent\<lparr>agent_messageQueue := agent_messageQueue agent @ replicate (Suc n) m\<rparr>"
  by (simp add: receiveMessage_def)

lemma deliver_get:
  "Map_get (deliver m tos ags) r =
     map_option (\<lambda>a. a\<lparr>agent_messageQueue :=
                        agent_messageQueue a @ replicate (count_list tos (AgentRole_string r)) m\<rparr>)
       (Map_get ags r)"
proof (induction tos arbitrary: ags)
  case Nil
  then show ?case by (simp add: option.map_ident)
next
  case (Cons toRole rest)
  show ?case
  proof (cases "as_AgentRole toRole")
    case None
    then show ?thesis using as_AgentRole_None[OF None, of r] by (simp add: Cons.IH)
  next
    case (Some r')
    then have str: "AgentRole_string r' = toRole" by (simp add: as_AgentRole_Some)
    show ?thesis
    proof (cases "Map_get ags r'")
      case None
      show ?thesis
      proof (cases "r = r'")
        case True
        then show ?thesis using None Some Cons.IH[of ags] by simp
      next
        case False
        then have "AgentRole_string r \<noteq> toRole" using str inj_AgentRole_string by blast
        then show ?thesis using None Some by (simp add: Cons.IH)
      qed
    next
      case agent: (Some agent)
      show ?thesis
      proof (cases "r = r'")
        case True
        then show ?thesis
          using agent Some str Cons.IH[of "Map_set r' (receiveMessage agent m) ags"]
          by (simp add: Map_get_Map_set receive_more del: replicate_Suc)
      next
        case False
        then have "AgentRole_string r \<noteq> toRole" using str inj_AgentRole_string by blast
        then show ?thesis using agent Some False by (simp add: Cons.IH Map_get_Map_set)
      qed
    qed
  qed
qed

lemma registry_ok_registerAgent: "registry_ok s \<Longrightarrow> registry_ok (registerAgent s agent)"
proof -
  let ?a = "setSharedContext agent (company_id (companyState s))"
  assume ok: "registry_ok s"
  have "role (getContext x) = k" if "(k, x) \<in> set (Map_set (role (getContext agent)) ?a (agents s))" for k x
  proof -
    from that set_Map_set[of "role (getContext agent)" ?a "agents s"]
    have "(k, x) = (role (getContext agent), ?a) \<or> (k, x) \<in> set (agents s)" by auto
    then show ?thesis
      using ok by (auto simp: registry_ok_def list_all_iff setSharedContext_def getContext_def)
  qed
  then show ?thesis
    using ok by (auto simp: registry_ok_def registerAgent_def Let_def Map_set_keys_distinct list_all_iff)
qed

lemma registry_ok_new: "registry_ok (new_MCPServer uuid name now)"
  by (simp add: registry_ok_def new_MCPServer_def)

lemma only_entry:
  "distinct (map fst m) \<Longrightarrow> list_all (\<lambda>(k, a). f a = k) m \<Longrightarrow> map_of m k = Some v
   \<Longrightarrow> filter (\<lambda>a. f a = k) (map snd m) = [v]"
proof (induction m)
  case Nil
  then show ?case by simp
next
  case (Cons p m)
  obtain k' a where p: "p = (k', a)" by (cases p)
  show ?case
  proof (cases "k' = k")
    case True
    have "filter (\<lambda>a. f a = k) (map snd m) = []"
      using Cons.prems True p by (fastforce simp: filter_empty_conv list_all_iff image_iff)
    then show ?thesis using Cons.prems True p by simp
  next
    case False
    then show ?thesis using Cons p by auto
  qed
qed

lemma set_without_first: "set (without_first P xs) \<subseteq> set xs"
  by (induction xs) auto

lemma without_first_ids:
  "distinct (map f xs) \<Longrightarrow> f ` set (without_first (\<lambda>x. f x = a) xs) = f ` set xs - {a}"
proof (induction xs)
  case Nil
  then show ?case by simp
next
  case (Cons x xs)
  show ?case
  proof (cases "f x = a")
    case True
    have "a \<notin> f ` set xs" using Cons.prems True by auto
    then show ?thesis using True by simp
  next
    case False
    then show ?thesis using Cons by auto
  qed
qed

lemma without_first_distinct:
  "distinct (map f xs) \<Longrightarrow> distinct (map f (without_first P xs))"
proof (induction xs)
  case Nil
  then show ?case by simp
next
  case (Cons x xs)
  show ?case using Cons set_without_first[of P xs] by auto
qed

lemma moved_refl: "tasks_inv s \<Longrightarrow> moved s s"
  by (simp add: moved_def)

lemma moved_trans: "moved s s' \<Longrightarrow> moved s' s'' \<Longrightarrow> moved s s''"
  unfolding moved_def by blast

lemma moved_same:
  "tasks_inv s \<Longrightarrow> getPendingTasks s' = getPendingTasks s \<Longrightarrow> getCompletedTasks s' = getCompletedTasks s
   \<Longrightarrow> moved s s'"
  by (simp add: moved_def tasks_inv_def pending_ids_def completed_ids_def)

lemma executeTask_moved:
  assumes "tasks_inv s"
  shows "moved s (snd (snd (executeTask s task now)))"
proof -
  let ?s' = "snd (snd (executeTask s task now))"
  have d: "distinct (map task_id (pendingTasks (companyState s)))"
    using assms by (simp add: tasks_inv_def getPendingTasks_def)
  have p: "pending_ids ?s' = pending_ids s - {task_id task}"
    using without_first_ids[OF d, of "task_id task"]
    by (simp add: executeTask_eq pending_ids_def getPendingTasks_def)
  have c: "completed_ids ?s' = completed_ids s \<union> {task_id task}"
    by (simp add: executeTask_eq completed_ids_def getCompletedTasks_def)
  have "distinct (map task_id (getPendingTasks ?s'))"
    using without_first_distinct[OF d] by (simp add: executeTask_eq getPendingTasks_def)
  moreover have "pending_ids ?s' \<inter> completed_ids ?s' = {}"
    using assms p c by (auto simp: tasks_inv_def)
  ultimately show ?thesis unfolding moved_def tasks_inv_def using p c by auto
qed

lemma moved_inv: "moved s s' \<Longrightarrow> tasks_inv s'"
  by (simp add: moved_def)

lemma executeStageTasks_moved:
  "tasks_inv s \<Longrightarrow> moved s (fst (snd (snd (executeStageTasks s clock n ts acc))))"
proof (induction ts arbitrary: s n acc)
  case Nil
  then show ?case by (simp add: moved_refl)
next
  case (Cons t ts)
  obtain rs t' s' where e: "executeTask s t (clock n) = (rs, t', s')"
    by (cases "executeTask s t (clock n)")
  have m: "moved s s'" using executeTask_moved[OF Cons.prems, of t "clock n"] e by simp
  have "moved s' (fst (snd (snd (executeStageTasks s' clock (n + 1) ts (acc @ rs)))))"
    using Cons.IH[OF moved_inv[OF m]] .
  then show ?case using m e by (auto simp: split: prod.splits intro: moved_trans)
qed

lemma updateSharedContext_moved: "tasks_inv s \<Longrightarrow> moved s (updateSharedContext s k v)"
  by (intro moved_same) (simp_all add: updateSharedContext_def getPendingTasks_def getCompletedTasks_def)

lemma executeStages_moved:
  "tasks_inv s \<Longrightarrow> moved s (fst (snd (snd (executeStages s clock n sts res))))"
proof (induction sts arbitrary: s n res)
  case Nil
  then show ?case by (simp add: moved_refl)
next
  case (Cons st sts)
  obtain rs ts' s1 n1 where e: "executeStageTasks s clock n (tasks st) [] = (rs, ts', s1, n1)"
    by (cases "executeStageTasks s clock n (tasks st) []") auto
  let ?s2 = "updateSharedContext s1 (stage_key (stage_id st)) (UResponses rs)"
  have m1: "moved s s1" using executeStageTasks_moved[OF Cons.prems, of clock n "tasks st" "[]"] e by simp
  have m2: "moved s ?s2"
    using m1 updateSharedContext_moved[OF moved_inv[OF m1]] by (blast intro: moved_trans)
  have "moved ?s2 (fst (snd (snd (executeStages ?s2 clock n1 sts (Map_set (stage_id st) rs res)))))"
    using Cons.IH[OF moved_inv[OF m2]] .
  then show ?case using m2 e by (auto simp: Let_def split: prod.splits intro: moved_trans)
qed

lemma call_moved:
  assumes "tasks_inv s" and "\<And>t d r p u n. c \<noteq> CreateTask t d r p u n"
  shows "moved s (call s c)"
proof (cases c)
  case (RegisterAgent a)
  then show ?thesis using assms(1)
    by (auto intro!: moved_same simp: registerAgent_def getPendingTasks_def getCompletedTasks_def Let_def)
next
  case (RouteMessage m)
  then show ?thesis using assms(1)
    by (auto intro!: moved_same simp: routeMessage_def getPendingTasks_def getCompletedTasks_def Let_def)
next
  case (CreateTask t d r p u n)
  then show ?thesis using assms(2) by blast
next
  case (ExecuteTask t now)
  then show ?thesis using executeTask_moved[OF assms(1)] by simp
next
  case (UpdateSharedContext k v)
  then show ?thesis using updateSharedContext_moved[OF assms(1)] by simp
next
  case (StoreArtifact k v)
  then show ?thesis using assms(1)
    by (auto intro!: moved_same simp: storeArtifact_def getPendingTasks_def getCompletedTasks_def)
next
  case (ExecuteWorkflow orch clock)
  show ?thesis
  proof (cases "currentWorkflow orch")
    case None
    then show ?thesis using ExecuteWorkflow assms(1) by (simp add: executeWorkflow_def moved_refl)
  next
    case (Some w)
    then show ?thesis
      using ExecuteWorkflow executeStages_moved[OF assms(1), of clock 0 "stages w" "[]"]
      by (auto simp: executeWorkflow_def split: prod.splits)
  qed
qed

lemma createTask_ids:
  assumes "tasks_inv s" and "u \<notin> pending_ids s" and "u \<notin> completed_ids s"
  shows "tasks_inv (call s (CreateTask t d r p u n))"
    and "pending_ids (call s (CreateTask t d r p u n)) = insert u (pending_ids s)"
    and "completed_ids (call s (CreateTask t d r p u n)) = completed_ids s"
  using assms
  by (auto simp: tasks_inv_def pending_ids_def completed_ids_def createTask_def Let_def
                 getPendingTasks_def getCompletedTasks_def)

lemma calls_lifecycle:
  "tasks_inv s \<Longrightarrow> uuids_fresh s cs \<Longrightarrow>
     tasks_inv (calls s cs)
     \<and> completed_ids s \<subseteq> completed_ids (calls s cs)
     \<and> pending_ids s \<union> completed_ids s \<subseteq> pending_ids (calls s cs) \<union> completed_ids (calls s cs)
     \<and> set (created_ids cs) \<subseteq> pending_ids (calls s cs) \<union> completed_ids (calls s cs)"
proof (induction cs arbitrary: s)
  case Nil
  then show ?case by simp
next
  case (Cons c cs)
  show ?case
  proof (cases "\<exists>t d r p u n. c = CreateTask t d r p u n")
    case True
    then obtain t d r p u n where c: "c = CreateTask t d r p u n" by blast
    have fr: "u \<notin> pending_ids s" "u \<notin> completed_ids s" "uuids_fresh (call s c) cs"
      using Cons.prems(2) c by simp_all
    note ct = createTask_ids[OF Cons.prems(1) fr(1) fr(2), of t d r p n]
    have ih: "tasks_inv (calls (call s c) cs)
     \<and> completed_ids (call s c) \<subseteq> completed_ids (calls (call s c) cs)
     \<and> pending_ids (call s c) \<union> completed_ids (call s c)
           \<subseteq> pending_ids (calls (call s c) cs) \<union> completed_ids (calls (call s c) cs)
     \<and> set (created_ids cs) \<subseteq> pending_ids (calls (call s c) cs) \<union> completed_ids (calls (call s c) cs)"
      using Cons.IH[of "call s c"] ct(1) fr(3) c by simp
    show ?thesis using ih ct(2,3) c by auto
  next
    case False
    then have nc: "\<And>t d r p u n. c \<noteq> CreateTask t d r p u n" by blast
    have m: "moved s (call s c)" using call_moved[OF Cons.prems(1) nc] .
    have fr: "uuids_fresh (call s c) cs" using Cons.prems(2) False by (cases c) auto
    have cr: "created_ids (c # cs) = created_ids cs" using False by (cases c) auto
    have X: "completed_ids s \<subseteq> completed_ids (call s c)"
        "pending_ids s \<union> completed_ids s \<subseteq> pending_ids (call s c) \<union> completed_ids (call s c)"
      using m unfolding moved_def by blast+
    have ih: "tasks_inv (calls (call s c) cs)
     \<and> completed_ids (call s c) \<subseteq> completed_ids (calls (call s c) cs)
     \<and> pending_ids (call s c) \<union> completed_ids (call s c)
           \<subseteq> pending_ids (calls (call s c) cs) \<union> completed_ids (calls (call s c) cs)
     \<and> set (created_ids cs) \<subseteq> pending_ids (calls (call s c) cs) \<union> completed_ids (calls (call s c) cs)"
      using Cons.IH[of "call s c"] moved_inv[OF m] fr by simp
    show ?thesis unfolding cr using ih X by auto
  qed
qed

lemma tasks_inv_new: "tasks_inv (new_MCPServer sid name t0)"
  by (simp add: tasks_inv_def new_MCPServer_def pending_ids_def completed_ids_def
                getPendingTasks_def getCompletedTasks_def)

lemma executeStages_append:
  "executeStages s clock n (pre @ post) res =
     (case executeStages s clock n pre res of
        (res1, pre', s1, n1) \<Rightarrow>
          (case executeStages s1 clock n1 post res1 of
             (res2, post', s2, n2) \<Rightarrow> (res2, pre' @ post', s2, n2)))"
  by (induction pre arbitrary: s n res) (auto simp: Let_def split: prod.splits)

lemma executeStages_keys:
  "distinct (map fst res @ map stage_id sts)
   \<Longrightarrow> map fst (fst (executeStages s clock n sts res)) = map fst res @ map stage_id sts"
proof (induction sts arbitrary: s n res)
  case Nil
  then show ?case by simp
next
  case (Cons st sts)
  obtain rs ts' s1 n1 where e: "executeStageTasks s clock n (tasks st) [] = (rs, ts', s1, n1)"
    by (cases "executeStageTasks s clock n (tasks st) []") auto
  let ?res1 = "Map_set (stage_id st) rs res"
  have k: "map fst ?res1 = map fst res @ [stage_id st]"
    using Cons.prems by (simp add: map_fst_Map_set)
  let ?s2 = "updateSharedContext s1 (stage_key (stage_id st)) (UResponses rs)"
  obtain r sts' s3 n3 where p: "executeStages ?s2 clock n1 sts ?res1 = (r, sts', s3, n3)"
    by (cases "executeStages ?s2 clock n1 sts ?res1") auto
  have u: "executeStages s clock n (st # sts) res = (r, st\<lparr>tasks := ts'\<rparr> # sts', s3, n3)"
    using e p by (simp add: Let_def)
  have "distinct (map fst ?res1 @ map stage_id sts)" using Cons.prems k by auto
  from Cons.IH[OF this, of ?s2 n1] show ?case using p u k by simp
qed

lemma executeStages_other_key:
  "k \<notin> set (map stage_id sts)
   \<Longrightarrow> Map_get (fst (executeStages s clock n sts res)) k = Map_get res k"
proof (induction sts arbitrary: s n res)
  case Nil
  then show ?case by simp
next
  case (Cons st sts)
  obtain rs ts' s1 n1 where e: "executeStageTasks s clock n (tasks st) [] = (rs, ts', s1, n1)"
    by (cases "executeStageTasks s clock n (tasks st) []") auto
  let ?s2 = "updateSharedContext s1 (stage_key (stage_id st)) (UResponses rs)"
  let ?res1 = "Map_set (stage_id st) rs res"
  obtain r sts' s3 n3 where p: "executeStages ?s2 clock n1 sts ?res1 = (r, sts', s3, n3)"
    by (cases "executeStages ?s2 clock n1 sts ?res1") auto
  have u: "executeStages s clock n (st # sts) res = (r, st\<lparr>tasks := ts'\<rparr> # sts', s3, n3)"
    using e p by (simp add: Let_def)
  have "k \<notin> set (map stage_id sts)" "k \<noteq> stage_id st" using Cons.prems by auto
  then show ?case using Cons.IH[of ?s2 n1 ?res1] p u by (simp add: Map_get_Map_set)
qed

lemma fold_store_other:
  "(\<And>r. k \<noteq> task_key tid r) \<Longrightarrow>
   Map_get (fold (\<lambda>r c. case f r of None \<Rightarrow> c
                          | Some resp \<Rightarrow> Map_set (task_key tid r) (UResponse resp) c) rs ctx) k
   = Map_get ctx k"
  by (induction rs arbitrary: ctx) (auto simp: Map_get_Map_set split: option.splits)

lemma stage_key_not_task_key: "stage_key sid \<noteq> task_key tid r"
  by (simp add: stage_key_def task_key_def)

lemma executeTask_stage_key:
  "getSharedContextValue (snd (snd (executeTask s task now))) (stage_key sid)
     = getSharedContextValue s (stage_key sid)"
  by (simp add: executeTask_eq getSharedContextValue_def fold_store_other stage_key_not_task_key)

lemma executeStageTasks_stage_key:
  "getSharedContextValue (fst (snd (snd (executeStageTasks s clock n ts acc)))) (stage_key sid)
     = getSharedContextValue s (stage_key sid)"
proof (induction ts arbitrary: s n acc)
  case Nil
  then show ?case by simp
next
  case (Cons t ts)
  obtain rs t' s' where e: "executeTask s t (clock n) = (rs, t', s')"
    by (cases "executeTask s t (clock n)")
  have a': "getSharedContextValue s' (stage_key sid) = getSharedContextValue s (stage_key sid)"
    using executeTask_stage_key[of s t "clock n" sid] e by simp
  obtain a ts' s'' n' where p: "executeStageTasks s' clock (n + 1) ts (acc @ rs) = (a, ts', s'', n')"
    by (cases "executeStageTasks s' clock (n + 1) ts (acc @ rs)") auto
  have u: "executeStageTasks s clock n (t # ts) acc = (a, t' # ts', s'', n')"
    using e p by simp
  show ?case using Cons.IH[of s' "n + 1" "acc @ rs"] p u a' by simp
qed

lemma stage_key_inj: "stage_key a = stage_key b \<Longrightarrow> a = b"
  by (simp add: stage_key_def)

lemma executeStages_stage_key:
  "sid \<notin> set (map stage_id sts)
   \<Longrightarrow> getSharedContextValue (fst (snd (snd (executeStages s clock n sts res)))) (stage_key sid)
       = getSharedContextValue s (stage_key sid)"
proof (induction sts arbitrary: s n res)
  case Nil
  then show ?case by simp
next
  case (Cons st sts)
  obtain rs ts' s1 n1 where e: "executeStageTasks s clock n (tasks st) [] = (rs, ts', s1, n1)"
    by (cases "executeStageTasks s clock n (tasks st) []") auto
  let ?s2 = "updateSharedContext s1 (stage_key (stage_id st)) (UResponses rs)"
  have a: "getSharedContextValue s1 (stage_key sid) = getSharedContextValue s (stage_key sid)"
    using executeStageTasks_stage_key[of s clock n "tasks st" "[]" sid] e by simp
  have ne: "stage_key sid \<noteq> stage_key (stage_id st)"
    using Cons.prems stage_key_inj by auto
  have b: "getSharedContextValue ?s2 (stage_key sid) = getSharedContextValue s1 (stage_key sid)"
    using ne by (simp add: getSharedContextValue_def updateSharedContext_def Map_get_Map_set)
  let ?res1 = "Map_set (stage_id st) rs res"
  obtain r sts' s3 n3 where p: "executeStages ?s2 clock n1 sts ?res1 = (r, sts', s3, n3)"
    by (cases "executeStages ?s2 clock n1 sts ?res1") auto
  have u: "executeStages s clock n (st # sts) res = (r, st\<lparr>tasks := ts'\<rparr> # sts', s3, n3)"
    using e p by (simp add: Let_def)
  have "sid \<notin> set (map stage_id sts)" using Cons.prems by simp
  from Cons.IH[OF this, of ?s2 n1 ?res1]
  show ?case using p u a b by simp
qed

lemma executeTask_agents: "agents (snd (snd (executeTask s task now))) = agents s"
  by (simp add: executeTask_eq)

lemma executeTask_responses_agents:
  "agents s' = agents s \<Longrightarrow> fst (executeTask s' task now') = fst (executeTask s task now)"
  by (simp add: executeTask_eq)

lemma executeStageTasks_responses:
  "fst (executeStageTasks s clock n ts acc)
     = acc @ concat (map (\<lambda>t. fst (executeTask s t now)) ts)"
proof (induction ts arbitrary: s n acc)
  case Nil
  then show ?case by simp
next
  case (Cons t ts)
  obtain rs t' s' where e: "executeTask s t (clock n) = (rs, t', s')"
    by (cases "executeTask s t (clock n)")
  obtain a ts' s'' n' where p: "executeStageTasks s' clock (n + 1) ts (acc @ rs) = (a, ts', s'', n')"
    by (cases "executeStageTasks s' clock (n + 1) ts (acc @ rs)") auto
  have ag: "agents s' = agents s" using executeTask_agents[of s t "clock n"] e by simp
  have r: "rs = fst (executeTask s t now)"
    using executeTask_responses_agents[of s s t "clock n" now] e by simp
  have same: "map (\<lambda>t. fst (executeTask s' t now)) ts = map (\<lambda>t. fst (executeTask s t now)) ts"
    using executeTask_responses_agents[OF ag] by simp
  have "a = (acc @ rs) @ concat (map (\<lambda>t. fst (executeTask s' t now)) ts)"
    using Cons.IH[of s' "n + 1" "acc @ rs"] p by simp
  then show ?case using e p r same by simp
qed

lemma written_keys:
  "distinct rs \<Longrightarrow> (\<forall>r\<in>set rs. task_key tid r \<notin> set (map fst ctx)) \<Longrightarrow>
   map fst (fold (\<lambda>r c. case f r of None \<Rightarrow> c
                          | Some resp \<Rightarrow> Map_set (task_key tid r) (UResponse resp) c) rs ctx)
   = map fst ctx @ map (task_key tid) (filter (\<lambda>r. f r \<noteq> None) rs)"
proof (induction rs arbitrary: ctx)
  case Nil
  then show ?case by simp
next
  case (Cons r rs)
  show ?case
  proof (cases "f r")
    case None
    then show ?thesis using Cons by simp
  next
    case (Some resp)
    let ?c = "Map_set (task_key tid r) (UResponse resp) ctx"
    have k: "map fst ?c = map fst ctx @ [task_key tid r]"
      using Cons.prems(2) by (simp add: map_fst_Map_set)
    have "\<forall>r'\<in>set rs. task_key tid r' \<notin> set (map fst ?c)"
      using Cons.prems k task_key_inj by auto
    then show ?thesis using Cons.IH[of ?c] Cons.prems(1) Some k by simp
  qed
qed

lemma responds_produced:
  "responds s task = (\<lambda>r. produced (agents s) (task\<lparr>status := InProgress\<rparr>) r \<noteq> None)"
  by (auto simp: responds_def produced_def getAgent_def fun_eq_iff split: option.splits sum.splits)

section \<open>The claims\<close>

subsection \<open>Task dispatch\<close>

text \<open>
  C1, as the code has it. A task is assigned to the roles A and B, in either order; both are
  registered, A's \<open>execute\<close> returns \<open>ra\<close> and B's throws. Then \<open>executeTask\<close> returns exactly
  one response, \<open>ra\<close> as produced: the catch block logs the error and does nothing else. It
  adds no response for B and writes nothing for B: the shared context after the call is the
  one before with \<open>ra\<close> stored under A's key, and the registry, the message history and the
  artifacts are as before. The failure does not stop the dispatch (with B first, A is still
  invoked), and the task ends with status Completed and a completion time.
\<close>

theorem executeTask_failure_logged_only:
  assumes "assignedTo task = [A, B] \<or> assignedTo task = [B, A]"
    and "getAgent s A = Some a" and "execute a (task\<lparr>status := InProgress\<rparr>) = Inr ra"
    and "getAgent s B = Some b" and "execute b (task\<lparr>status := InProgress\<rparr>) = Inl e"
  shows "fst (executeTask s task now) = [ra]
         \<and> status (fst (snd (executeTask s task now))) = Completed
         \<and> completedAt (fst (snd (executeTask s task now))) = Some now
         \<and> sharedContext (snd (snd (executeTask s task now)))
             = Map_set (''task_'' @ task_id task @ ''_'' @ AgentRole_string A) (UResponse ra)
                 (sharedContext s)
         \<and> agents (snd (snd (executeTask s task now))) = agents s
         \<and> getMessageHistory (snd (snd (executeTask s task now))) = getMessageHistory s
         \<and> artifacts (companyState (snd (snd (executeTask s task now)))) = artifacts (companyState s)"
proof -
  have "produced (agents s) (task\<lparr>status := InProgress\<rparr>) A = Some ra"
       "produced (agents s) (task\<lparr>status := InProgress\<rparr>) B = None"
    using assms by (simp_all add: produced_def getAgent_def)
  then show ?thesis using assms(1) by (auto simp: executeTask_eq task_key_def getMessageHistory_def)
qed

theorem executeTask_failure_logged_only_witness:
  "fst (executeTask example_server (example_task ''t7'' [QA, ProductManager]) 2000)
       = [planner_response ''t7'']
   \<and> status (fst (snd (executeTask example_server (example_task ''t7'' [QA, ProductManager]) 2000)))
       = Completed
   \<and> completedAt (fst (snd (executeTask example_server (example_task ''t7'' [QA, ProductManager]) 2000)))
       = Some 2000
   \<and> sharedContext (snd (snd (executeTask example_server (example_task ''t7'' [QA, ProductManager]) 2000)))
       = [(''task_t7_ProductManager'', UResponse (planner_response ''t7''))]"
proof -
  have h1: "assignedTo (example_task ''t7'' [QA, ProductManager]) = [ProductManager, QA]
          \<or> assignedTo (example_task ''t7'' [QA, ProductManager]) = [QA, ProductManager]"
    by (simp add: example_task_def)
  have h2: "getAgent example_server ProductManager = Some (setSharedContext planner ''srv-1'')"
    by (simp add: example_defs)
  have h3: "execute (setSharedContext planner ''srv-1'')
              ((example_task ''t7'' [QA, ProductManager])\<lparr>status := InProgress\<rparr>)
            = Inr (planner_response ''t7'')"
    by (simp add: example_defs)
  have h4: "getAgent example_server QA = Some (setSharedContext failing_verifier ''srv-1'')"
    by (simp add: example_defs)
  have h5: "execute (setSharedContext failing_verifier ''srv-1'')
              ((example_task ''t7'' [QA, ProductManager])\<lparr>status := InProgress\<rparr>)
            = Inl ''timeout''"
    by (simp add: example_defs)
  have c: "sharedContext example_server = []" "task_id (example_task ''t7'' [QA, ProductManager]) = ''t7''"
    by (simp_all add: example_defs)
  show ?thesis using executeTask_failure_logged_only[OF h1 h2 h3 h4 h5, of 2000] by (simp add: c)
qed

text \<open>
  C1 as stated fails: with the planner and the failing verifier registered and a task assigned
  to [ProductManager, QA], the planner answers, the verifier throws "timeout", and
  \<open>executeTask\<close> returns the planner's response alone, not two responses.
\<close>

theorem executeTask_two_responses_counterexample:
  "getAgent example_server ProductManager = Some (setSharedContext planner ''srv-1'')
   \<and> getAgent example_server QA = Some (setSharedContext failing_verifier ''srv-1'')
   \<and> execute (setSharedContext planner ''srv-1'')
         ((example_task ''t1'' [ProductManager, QA])\<lparr>status := InProgress\<rparr>)
       = Inr (planner_response ''t1'')
   \<and> execute (setSharedContext failing_verifier ''srv-1'')
         ((example_task ''t1'' [ProductManager, QA])\<lparr>status := InProgress\<rparr>)
       = Inl ''timeout''
   \<and> fst (executeTask example_server (example_task ''t1'' [ProductManager, QA]) 2000)
       = [planner_response ''t1'']
   \<and> length (fst (executeTask example_server (example_task ''t1'' [ProductManager, QA]) 2000)) \<noteq> 2"
  by (simp add: example_defs executeTask_def findIndex_def)

text \<open>
  C2, as the code has it. For every assigned role \<open>r\<close> whose registered worker's \<open>execute\<close>
  returns \<open>resp\<close>, the shared context after \<open>executeTask\<close> holds \<open>resp\<close> under the key
  \<open>task_<taskId>_<role>\<close> (underscores), and \<open>resp\<close> is in the returned list.
\<close>

theorem executeTask_stores_response:
  assumes "r \<in> set (assignedTo task)"
    and "getAgent s r = Some agent"
    and "execute agent (task\<lparr>status := InProgress\<rparr>) = Inr resp"
  shows "getSharedContextValue (snd (snd (executeTask s task now)))
           (''task_'' @ task_id task @ ''_'' @ AgentRole_string r) = Some (UResponse resp)
         \<and> resp \<in> set (fst (executeTask s task now))"
proof -
  have p: "produced (agents s) (task\<lparr>status := InProgress\<rparr>) r = Some resp"
    using assms by (simp add: produced_def getAgent_def)
  have "getSharedContextValue (snd (snd (executeTask s task now))) (task_key (task_id task) r)
          = Some (UResponse resp)"
    using p assms(1) by (simp add: executeTask_eq getSharedContextValue_def fold_store_get)
  moreover have "resp \<in> set (fst (executeTask s task now))"
    using p assms(1) by (auto simp: executeTask_eq set_map_filter)
  ultimately show ?thesis by (simp add: task_key_def)
qed

theorem executeTask_stores_response_witness:
  "getSharedContextValue
       (snd (snd (executeTask example_server (example_task ''t3'' [ProductManager, QA]) 2000)))
       (''task_'' @ ''t3'' @ ''_'' @ ''ProductManager'') = Some (UResponse (planner_response ''t3''))
   \<and> planner_response ''t3''
       \<in> set (fst (executeTask example_server (example_task ''t3'' [ProductManager, QA]) 2000))"
proof -
  have h1: "ProductManager \<in> set (assignedTo (example_task ''t3'' [ProductManager, QA]))"
    by (simp add: example_task_def)
  have h2: "getAgent example_server ProductManager = Some (setSharedContext planner ''srv-1'')"
    by (simp add: example_defs)
  have h3: "execute (setSharedContext planner ''srv-1'')
              ((example_task ''t3'' [ProductManager, QA])\<lparr>status := InProgress\<rparr>)
            = Inr (planner_response ''t3'')"
    by (simp add: example_defs)
  show ?thesis
    using executeTask_stores_response[OF h1 h2 h3, of 2000] by (simp add: example_task_def)
qed

text \<open>
  C2 as stated fails: after the planner has answered task "t", nothing is stored under the
  key "task:t:ProductManager"; the response is under "task_t_ProductManager".
\<close>

theorem executeTask_colon_key_counterexample:
  "fst (executeTask example_server (example_task ''t'' [ProductManager]) 2000)
       = [planner_response ''t'']
   \<and> getSharedContextValue
         (snd (snd (executeTask example_server (example_task ''t'' [ProductManager]) 2000)))
         ''task:t:ProductManager'' = None
   \<and> getSharedContextValue
         (snd (snd (executeTask example_server (example_task ''t'' [ProductManager]) 2000)))
         ''task_t_ProductManager'' = Some (UResponse (planner_response ''t''))"
  by (simp add: example_defs executeTask_def findIndex_def getSharedContextValue_def task_key_def)

text \<open>
  C4, as the code has it. The roles are processed one after the other in assignment order:
  the shared context after \<open>executeTask\<close> is the one before with the responses stored role
  by role from the first assigned role to the last, so that the keys the call adds stand in
  the \<open>Map\<close> in the order in which their roles were invoked. The responses returned are, in
  that same order, the responses of the assigned roles that respond: a role with no
  registered worker and a role whose worker's \<open>execute\<close> throws contribute nothing, and
  nothing is reordered. When every registered worker answers under the role it is
  registered for, the roles of the responses are therefore the assigned roles without those
  two kinds, in assignment order.
\<close>

theorem executeTask_response_roles:
  "fst (executeTask s task now)
     = List.map_filter (produced (agents s) (task\<lparr>status := InProgress\<rparr>)) (assignedTo task)
   \<and> sharedContext (snd (snd (executeTask s task now)))
     = fold (\<lambda>r ctx. case produced (agents s) (task\<lparr>status := InProgress\<rparr>) r of
                        None \<Rightarrow> ctx
                      | Some resp \<Rightarrow>
                          Map_set (''task_'' @ task_id task @ ''_'' @ AgentRole_string r) (UResponse resp) ctx)
         (assignedTo task) (sharedContext s)
   \<and> (distinct (assignedTo task)
        \<and> (\<forall>r\<in>set (assignedTo task).
              ''task_'' @ task_id task @ ''_'' @ AgentRole_string r \<notin> set (map fst (sharedContext s)))
        \<longrightarrow> map fst (sharedContext (snd (snd (executeTask s task now))))
            = map fst (sharedContext s)
                @ map (\<lambda>r. ''task_'' @ task_id task @ ''_'' @ AgentRole_string r)
                    (filter (responds s task) (assignedTo task)))
   \<and> ((\<forall>r agent resp. getAgent s r = Some agent
              \<longrightarrow> execute agent (task\<lparr>status := InProgress\<rparr>) = Inr resp \<longrightarrow> agentRole resp = r)
        \<longrightarrow> map agentRole (fst (executeTask s task now)) = filter (responds s task) (assignedTo task))"
proof (intro conjI impI)
  show "fst (executeTask s task now)
     = List.map_filter (produced (agents s) (task\<lparr>status := InProgress\<rparr>)) (assignedTo task)"
    by (simp add: executeTask_eq)
next
  show "sharedContext (snd (snd (executeTask s task now)))
     = fold (\<lambda>r ctx. case produced (agents s) (task\<lparr>status := InProgress\<rparr>) r of
                        None \<Rightarrow> ctx
                      | Some resp \<Rightarrow>
                          Map_set (''task_'' @ task_id task @ ''_'' @ AgentRole_string r) (UResponse resp) ctx)
         (assignedTo task) (sharedContext s)"
    by (simp add: executeTask_eq task_key_def cong: option.case_cong)
next
  assume a: "distinct (assignedTo task)
        \<and> (\<forall>r\<in>set (assignedTo task).
              ''task_'' @ task_id task @ ''_'' @ AgentRole_string r \<notin> set (map fst (sharedContext s)))"
  then have d: "distinct (assignedTo task)"
    and f: "\<forall>r\<in>set (assignedTo task). task_key (task_id task) r \<notin> set (map fst (sharedContext s))"
    by (simp_all add: task_key_def)
  have "map fst (sharedContext (snd (snd (executeTask s task now))))
          = map fst (sharedContext s)
              @ map (task_key (task_id task)) (filter (responds s task) (assignedTo task))"
    using written_keys[OF d f, of "produced (agents s) (task\<lparr>status := InProgress\<rparr>)"]
    by (simp add: executeTask_eq responds_produced)
  then show "map fst (sharedContext (snd (snd (executeTask s task now))))
            = map fst (sharedContext s)
                @ map (\<lambda>r. ''task_'' @ task_id task @ ''_'' @ AgentRole_string r)
                    (filter (responds s task) (assignedTo task))"
    by (simp add: task_key_def)
next
  assume honest: "\<forall>r agent resp. getAgent s r = Some agent
              \<longrightarrow> execute agent (task\<lparr>status := InProgress\<rparr>) = Inr resp \<longrightarrow> agentRole resp = r"
  have "map agentRole (List.map_filter (produced (agents s) (task\<lparr>status := InProgress\<rparr>)) (assignedTo task))
        = filter (\<lambda>r. produced (agents s) (task\<lparr>status := InProgress\<rparr>) r \<noteq> None) (assignedTo task)"
    using honest
    by (intro map_filter_honest) (auto simp: produced_def getAgent_def split: option.splits sum.splits)
  then show "map agentRole (fst (executeTask s task now)) = filter (responds s task) (assignedTo task)"
    by (simp add: executeTask_eq responds_produced)
qed

theorem executeTask_response_roles_witness:
  "map agentRole
     (fst (executeTask staffed_server (example_task ''t4'' [Architect, QA, ProductManager]) 2000))
   = [Architect, ProductManager]
   \<and> map fst (sharedContext
        (snd (snd (executeTask staffed_server (example_task ''t4'' [Architect, QA, ProductManager]) 2000))))
   = [''task_t4_Architect'', ''task_t4_ProductManager'']"
proof -
  let ?t = "example_task ''t4'' [Architect, QA, ProductManager]"
  have h: "\<forall>r agent resp. getAgent staffed_server r = Some agent
             \<longrightarrow> execute agent (?t\<lparr>status := InProgress\<rparr>) = Inr resp
             \<longrightarrow> agentRole resp = r"
    by (auto simp: example_defs split: if_splits)
  have d: "distinct (assignedTo ?t)
        \<and> (\<forall>r\<in>set (assignedTo ?t).
              ''task_'' @ task_id ?t @ ''_'' @ AgentRole_string r \<notin> set (map fst (sharedContext staffed_server)))"
    by (simp add: example_defs)
  have f: "filter (responds staffed_server ?t) (assignedTo ?t) = [Architect, ProductManager]"
    by (simp add: responds_def example_defs)
  have c: "sharedContext staffed_server = []" "task_id ?t = ''t4''"
    by (simp_all add: example_defs)
  have "map agentRole (fst (executeTask staffed_server ?t 2000)) = filter (responds staffed_server ?t) (assignedTo ?t)"
    using executeTask_response_roles[of staffed_server ?t 2000] h by blast
  moreover have "map fst (sharedContext (snd (snd (executeTask staffed_server ?t 2000))))
            = map fst (sharedContext staffed_server)
                @ map (\<lambda>r. ''task_'' @ task_id ?t @ ''_'' @ AgentRole_string r)
                    (filter (responds staffed_server ?t) (assignedTo ?t))"
    using executeTask_response_roles[of staffed_server ?t 2000] d by blast
  ultimately show ?thesis by (simp add: f c)
qed

text \<open>
  The roles of the responses are the workers' own word: a worker registered for QA that
  answers under the role ProductManager puts ProductManager into the list of a task assigned
  to QA alone.
\<close>

lemma executeTask_mislabelled_response:
  "getAgent (registerAgent (new_MCPServer ''srv-2'' None 0) mislabelled_verifier) QA
     = Some (setSharedContext mislabelled_verifier ''srv-2'')
   \<and> map agentRole
       (fst (executeTask (registerAgent (new_MCPServer ''srv-2'' None 0) mislabelled_verifier)
               (example_task ''t5'' [QA]) 2000))
     = [ProductManager]"
  by (simp add: example_defs executeTask_def findIndex_def)

text \<open>
  C4 as stated fails: QA and ProductManager both have a registered worker, the task is
  assigned to [QA, ProductManager], and the roles of the responses are [ProductManager]: the
  role whose worker throws is left out as well.
\<close>

theorem executeTask_registered_roles_counterexample:
  "getAgent example_server QA = Some (setSharedContext failing_verifier ''srv-1'')
   \<and> getAgent example_server ProductManager = Some (setSharedContext planner ''srv-1'')
   \<and> map agentRole (fst (executeTask example_server (example_task ''t2'' [QA, ProductManager]) 3000))
       = [ProductManager]"
  by (simp add: example_defs executeTask_def findIndex_def)

text \<open>
  C9. \<open>executeTask\<close> takes a task whose id is not in the pending collection: the pending
  collection stays as it is, the task comes back with status Completed and is the new last
  entry of the completed collection. Executing the returned task again adds a second entry
  with the same id.
\<close>

theorem executeTask_not_pending:
  assumes "task_id task \<notin> set (map task_id (getPendingTasks s))"
  shows "getPendingTasks (snd (snd (executeTask s task now))) = getPendingTasks s
     \<and> map task_id (getCompletedTasks (snd (snd (executeTask s task now))))
         = map task_id (getCompletedTasks s) @ [task_id task]
     \<and> last (getCompletedTasks (snd (snd (executeTask s task now)))) = fst (snd (executeTask s task now))
     \<and> status (fst (snd (executeTask s task now))) = Completed
     \<and> task_id (fst (snd (executeTask s task now))) = task_id task
     \<and> getPendingTasks (snd (snd (executeTask (snd (snd (executeTask s task now)))
                                      (fst (snd (executeTask s task now))) now')))
         = getPendingTasks s
     \<and> map task_id (getCompletedTasks (snd (snd (executeTask (snd (snd (executeTask s task now)))
                                                     (fst (snd (executeTask s task now))) now'))))
         = map task_id (getCompletedTasks s) @ [task_id task, task_id task]"
proof -
  have "\<forall>x\<in>set (pendingTasks (companyState s)). \<not> task_id x = task_id task"
    using assms by (auto simp: getPendingTasks_def image_iff)
  then have "without_first (\<lambda>t. task_id t = task_id task) (pendingTasks (companyState s))
          = pendingTasks (companyState s)"
    by (rule without_first_absent)
  then show ?thesis
    by (simp add: executeTask_eq getPendingTasks_def getCompletedTasks_def)
qed

theorem executeTask_not_pending_witness:
  "getPendingTasks (snd (snd (executeTask example_server (example_task ''task-001'' [ProductManager]) 2000)))
     = []
   \<and> map task_id
       (getCompletedTasks
          (snd (snd (executeTask
             (snd (snd (executeTask example_server (example_task ''task-001'' [ProductManager]) 2000)))
             (fst (snd (executeTask example_server (example_task ''task-001'' [ProductManager]) 2000)))
             3000))))
     = [''task-001'', ''task-001'']"
proof -
  have h: "task_id (example_task ''task-001'' [ProductManager])
             \<notin> set (map task_id (getPendingTasks example_server))"
    by (simp add: example_defs getPendingTasks_def)
  have p: "getPendingTasks example_server = []" "getCompletedTasks example_server = []"
    by (simp_all add: example_defs getPendingTasks_def getCompletedTasks_def)
  show ?thesis
    using executeTask_not_pending[OF h, of 2000 3000] by (simp add: p example_task_def)
qed

text \<open>
  C10. \<open>createTask\<close> called without the priority argument returns a task with priority
  "medium", status Pending, the id drawn from \<open>crypto.randomUUID()\<close> and the creation time
  read from the clock, and the pending collection afterwards is the one before with that same
  task appended.
\<close>

theorem createTask_default_priority:
  "priority (fst (createTask s ttl descr rs None uuid now)) = medium
   \<and> status (fst (createTask s ttl descr rs None uuid now)) = Pending
   \<and> task_id (fst (createTask s ttl descr rs None uuid now)) = uuid
   \<and> task_createdAt (fst (createTask s ttl descr rs None uuid now)) = now
   \<and> title (fst (createTask s ttl descr rs None uuid now)) = ttl
   \<and> task_description (fst (createTask s ttl descr rs None uuid now)) = descr
   \<and> assignedTo (fst (createTask s ttl descr rs None uuid now)) = rs
   \<and> getPendingTasks (snd (createTask s ttl descr rs None uuid now))
       = getPendingTasks s @ [fst (createTask s ttl descr rs None uuid now)]
   \<and> getCompletedTasks (snd (createTask s ttl descr rs None uuid now)) = getCompletedTasks s"
  by (simp add: createTask_def getPendingTasks_def getCompletedTasks_def Let_def)

subsection \<open>Registry and message router\<close>

text \<open>
  C7. \<open>routeMessage\<close> appends the message to the history, whatever the recipients are. The
  registry afterwards has the same roles registered; the worker of role \<open>r\<close> has the message
  at the end of its inbox once for each occurrence of \<open>r\<close> in the recipient list, and its inbox
  is unchanged when \<open>r\<close> is no recipient. A recipient without a registered worker changes
  nothing. Two messages routed one after the other stand in every inbox in that order.
\<close>

theorem routeMessage_delivery:
  "getMessageHistory (routeMessage s m) = getMessageHistory s @ [m]
   \<and> (\<forall>r. getAgent (routeMessage s m) r =
         map_option (\<lambda>a. a\<lparr>agent_messageQueue :=
                            getMessages a @ replicate (count_list (msg_to m) (AgentRole_string r)) m\<rparr>)
           (getAgent s r))
   \<and> (\<forall>r. getAgent (routeMessage (routeMessage s m) m') r =
         map_option (\<lambda>a. a\<lparr>agent_messageQueue :=
                            getMessages a @ replicate (count_list (msg_to m) (AgentRole_string r)) m
                                          @ replicate (count_list (msg_to m') (AgentRole_string r)) m'\<rparr>)
           (getAgent s r))"
proof -
  have one: "getAgent (routeMessage s m) r =
         map_option (\<lambda>a. a\<lparr>agent_messageQueue :=
                            getMessages a @ replicate (count_list (msg_to m) (AgentRole_string r)) m\<rparr>)
           (getAgent s r)" for s m r
    by (simp add: routeMessage_def getAgent_def getMessages_def deliver_get Let_def)
  have two: "getAgent (routeMessage (routeMessage s m) m') r =
         map_option (\<lambda>a. a\<lparr>agent_messageQueue :=
                            getMessages a @ replicate (count_list (msg_to m) (AgentRole_string r)) m
                                          @ replicate (count_list (msg_to m') (AgentRole_string r)) m'\<rparr>)
           (getAgent s r)" for r
    by (simp add: one[of "routeMessage s m"] one[of s] option.map_comp comp_def getMessages_def)
  have "getMessageHistory (routeMessage s m) = getMessageHistory s @ [m]"
    by (simp add: routeMessage_def getMessageHistory_def Let_def)
  then show ?thesis using one two by blast
qed

theorem routeMessage_delivery_witness:
  "getMessageHistory
       (routeMessage example_server (example_message ''m1'' [''QA'', ''Nobody'', ''Architect'']))
     = [example_message ''m1'' [''QA'', ''Nobody'', ''Architect'']]
   \<and> map_option getMessages
         (getAgent (routeMessage example_server (example_message ''m1'' [''QA'', ''Nobody'', ''Architect'']))
            QA)
       = Some [example_message ''m1'' [''QA'', ''Nobody'', ''Architect'']]
   \<and> map_option getMessages
         (getAgent (routeMessage example_server (example_message ''m1'' [''QA'', ''Nobody'', ''Architect'']))
            ProductManager)
       = Some []
   \<and> getAgent (routeMessage example_server (example_message ''m1'' [''QA'', ''Nobody'', ''Architect'']))
         Architect
       = None"
proof -
  have h: "getMessageHistory example_server = []"
    by (simp add: example_defs getMessageHistory_def)
  have q: "map_option getMessages (getAgent example_server QA) = Some []"
          "map_option getMessages (getAgent example_server ProductManager) = Some []"
          "getAgent example_server Architect = None"
    by (simp_all add: example_defs getMessages_def)
  have t: "msg_to (example_message ''m1'' [''QA'', ''Nobody'', ''Architect''])
             = [''QA'', ''Nobody'', ''Architect'']"
    by (simp add: example_message_def)
  show ?thesis
    using routeMessage_delivery[of example_server
            "example_message ''m1'' [''QA'', ''Nobody'', ''Architect'']"
            "example_message ''m1'' [''QA'', ''Nobody'', ''Architect'']"] q
    by (auto simp: h t getMessages_def)
qed

text \<open>
  C8. In a registry built by \<open>registerAgent\<close>, registering W1 and then W2, both of role R,
  leaves W2 as the worker that \<open>getAgent R\<close> returns and as the only worker of role R among
  \<open>getAllAgents\<close>; W1 is not among them. \<open>registerAgent\<close> has no error result.
\<close>

theorem registerAgent_last_write_wins:
  assumes "registry_ok s"
    and "role (getContext W1) = R" and "role (getContext W2) = R"
  shows "getAgent (registerAgent (registerAgent s W1) W2) R
           = Some (setSharedContext W2 (company_id (companyState s)))
       \<and> filter (\<lambda>a. role (getContext a) = R) (getAllAgents (registerAgent (registerAgent s W1) W2))
           = [setSharedContext W2 (company_id (companyState s))]
       \<and> (setSharedContext W1 (company_id (companyState s)) \<noteq> setSharedContext W2 (company_id (companyState s))
            \<longrightarrow> setSharedContext W1 (company_id (companyState s))
                  \<notin> set (getAllAgents (registerAgent (registerAgent s W1) W2)))"
proof -
  let ?s2 = "registerAgent (registerAgent s W1) W2"
  let ?W1 = "setSharedContext W1 (company_id (companyState s))"
  let ?W2 = "setSharedContext W2 (company_id (companyState s))"
  have ok: "registry_ok ?s2"
    using assms(1) by (intro registry_ok_registerAgent)
  have get: "getAgent ?s2 R = Some ?W2"
    using assms(3) by (simp add: getAgent_def registerAgent_def Map_get_Map_set Let_def)
  have only: "filter (\<lambda>a. role (getContext a) = R) (getAllAgents ?s2) = [?W2]"
    using ok get unfolding registry_ok_def getAllAgents_def Map_values_def getAgent_def Map_get_def
    by (intro only_entry) auto
  have "?W1 \<notin> set (getAllAgents ?s2)" if ne: "?W1 \<noteq> ?W2"
  proof
    assume "?W1 \<in> set (getAllAgents ?s2)"
    moreover have "role (getContext ?W1) = R"
      using assms(2) by (simp add: setSharedContext_def getContext_def)
    ultimately have "?W1 \<in> set (filter (\<lambda>a. role (getContext a) = R) (getAllAgents ?s2))" by simp
    then show False using only ne by simp
  qed
  then show ?thesis using get only by blast
qed

theorem registerAgent_last_write_wins_witness:
  "getAgent (registerAgent (registerAgent example_server planner) second_planner) ProductManager
     = Some (setSharedContext second_planner ''srv-1'')
   \<and> setSharedContext planner ''srv-1''
       \<notin> set (getAllAgents (registerAgent (registerAgent example_server planner) second_planner))"
proof -
  have h1: "registry_ok example_server"
    unfolding example_server_def by (intro registry_ok_registerAgent registry_ok_new)
  have h2: "role (getContext planner) = ProductManager"
    by (simp add: example_defs)
  have h3: "role (getContext second_planner) = ProductManager"
    by (simp add: example_defs)
  have id: "company_id (companyState example_server) = ''srv-1''"
    by (simp add: example_defs)
  have ne: "setSharedContext planner ''srv-1'' \<noteq> setSharedContext second_planner ''srv-1''"
    by (simp add: example_defs)
  show ?thesis
    using registerAgent_last_write_wins[OF h1 h2 h3] ne by (simp add: id)
qed

subsection \<open>Workflow sequencer\<close>

text \<open>
  C6. With no current workflow (as in a new orchestrator, before any \<open>defineWorkflow\<close>),
  \<open>executeWorkflow\<close> throws the error "No workflow defined" and leaves the orchestrator and
  the server, and so the pending and completed collections, as they were: no task is
  dispatched.
\<close>

theorem executeWorkflow_no_workflow:
  assumes "currentWorkflow orch = None"
  shows "executeWorkflow orch s clock = (Inl (Error ''No workflow defined''), orch, s)"
  using assms by (simp add: executeWorkflow_def)

theorem executeWorkflow_no_workflow_witness:
  "executeWorkflow new_WorkflowOrchestrator example_server (\<lambda>n. 5000 + n)
     = (Inl (Error ''No workflow defined''), new_WorkflowOrchestrator, example_server)"
proof -
  have h: "currentWorkflow new_WorkflowOrchestrator = None"
    by (simp add: new_WorkflowOrchestrator_def)
  show ?thesis using executeWorkflow_no_workflow[OF h] by simp
qed

subsection \<open>Task lifecycle\<close>

text \<open>
  C3. Take any sequence of calls on a new server in which every \<open>createTask\<close> gets a fresh
  id. In the state it leads to, (1) the id of every task created by \<open>createTask\<close> is in
  exactly one of the pending and the completed collection, and (2) no id is in both;
  (3) \<open>executeTask\<close> on any task, whatever its workers do, returns it with status Completed
  and the completion time, makes it the new last entry of the completed collection and
  leaves its id out of the pending one; (4) an id that is in the completed collection stays there and is not in
  the pending collection after any further calls. Since this holds after every sequence of
  calls, it holds at every point of a run.
\<close>

theorem task_lifecycle:
  assumes "uuids_fresh (new_MCPServer sid name t0) cs"
  shows "(\<forall>tid\<in>set (created_ids cs).
            (tid \<in> pending_ids (calls (new_MCPServer sid name t0) cs))
              \<noteq> (tid \<in> completed_ids (calls (new_MCPServer sid name t0) cs)))
       \<and> pending_ids (calls (new_MCPServer sid name t0) cs)
            \<inter> completed_ids (calls (new_MCPServer sid name t0) cs) = {}
       \<and> (\<forall>task now.
            status (fst (snd (executeTask (calls (new_MCPServer sid name t0) cs) task now))) = Completed
            \<and> completedAt (fst (snd (executeTask (calls (new_MCPServer sid name t0) cs) task now))) = Some now
            \<and> map task_id
                  (getCompletedTasks (snd (snd (executeTask (calls (new_MCPServer sid name t0) cs) task now))))
                = map task_id (getCompletedTasks (calls (new_MCPServer sid name t0) cs)) @ [task_id task]
            \<and> last (getCompletedTasks (snd (snd (executeTask (calls (new_MCPServer sid name t0) cs) task now))))
                = fst (snd (executeTask (calls (new_MCPServer sid name t0) cs) task now))
            \<and> task_id task
                \<notin> pending_ids (snd (snd (executeTask (calls (new_MCPServer sid name t0) cs) task now))))
       \<and> (\<forall>cs' tid.
            uuids_fresh (calls (new_MCPServer sid name t0) cs) cs'
            \<and> tid \<in> completed_ids (calls (new_MCPServer sid name t0) cs)
            \<longrightarrow> tid \<in> completed_ids (calls (calls (new_MCPServer sid name t0) cs) cs')
                \<and> tid \<notin> pending_ids (calls (calls (new_MCPServer sid name t0) cs) cs'))"
proof -
  let ?s = "calls (new_MCPServer sid name t0) cs"
  note L = calls_lifecycle[OF tasks_inv_new assms]
  have inv: "tasks_inv ?s" using L by simp
  have dis: "pending_ids ?s \<inter> completed_ids ?s = {}" using inv by (simp add: tasks_inv_def)
  have one: "\<forall>tid\<in>set (created_ids cs). (tid \<in> pending_ids ?s) \<noteq> (tid \<in> completed_ids ?s)"
    using L dis by auto
  have ex: "status (fst (snd (executeTask ?s task now))) = Completed
            \<and> completedAt (fst (snd (executeTask ?s task now))) = Some now
            \<and> map task_id (getCompletedTasks (snd (snd (executeTask ?s task now))))
                = map task_id (getCompletedTasks ?s) @ [task_id task]
            \<and> last (getCompletedTasks (snd (snd (executeTask ?s task now))))
                = fst (snd (executeTask ?s task now))
            \<and> task_id task \<notin> pending_ids (snd (snd (executeTask ?s task now)))" for task now
  proof -
    have "moved ?s (snd (snd (executeTask ?s task now)))" using executeTask_moved[OF inv] .
    then have "pending_ids (snd (snd (executeTask ?s task now)))
                 \<inter> completed_ids (snd (snd (executeTask ?s task now))) = {}"
      by (simp add: moved_def tasks_inv_def)
    moreover have "task_id task \<in> completed_ids (snd (snd (executeTask ?s task now)))"
      by (simp add: executeTask_eq completed_ids_def getCompletedTasks_def)
    ultimately have "task_id task \<notin> pending_ids (snd (snd (executeTask ?s task now)))" by blast
    then show ?thesis by (simp add: executeTask_eq getCompletedTasks_def)
  qed
  have stays: "tid \<in> completed_ids (calls ?s cs') \<and> tid \<notin> pending_ids (calls ?s cs')"
    if "uuids_fresh ?s cs'" "tid \<in> completed_ids ?s" for cs' tid
  proof -
    note L' = calls_lifecycle[OF inv that(1)]
    have "tid \<in> completed_ids (calls ?s cs')" using L' that(2) by blast
    moreover have "pending_ids (calls ?s cs') \<inter> completed_ids (calls ?s cs') = {}"
      using L' by (simp add: tasks_inv_def)
    ultimately show ?thesis by blast
  qed
  show ?thesis
  proof (intro conjI)
    show "\<forall>tid\<in>set (created_ids cs). (tid \<in> pending_ids ?s) \<noteq> (tid \<in> completed_ids ?s)"
      by (rule one)
    show "pending_ids ?s \<inter> completed_ids ?s = {}"
      by (rule dis)
    show "\<forall>task now.
            status (fst (snd (executeTask ?s task now))) = Completed
            \<and> completedAt (fst (snd (executeTask ?s task now))) = Some now
            \<and> map task_id (getCompletedTasks (snd (snd (executeTask ?s task now))))
                = map task_id (getCompletedTasks ?s) @ [task_id task]
            \<and> last (getCompletedTasks (snd (snd (executeTask ?s task now))))
                = fst (snd (executeTask ?s task now))
            \<and> task_id task \<notin> pending_ids (snd (snd (executeTask ?s task now)))"
      by (intro allI) (rule ex)
    show "\<forall>cs' tid.
            uuids_fresh ?s cs' \<and> tid \<in> completed_ids ?s
            \<longrightarrow> tid \<in> completed_ids (calls ?s cs') \<and> tid \<notin> pending_ids (calls ?s cs')"
    proof (intro allI impI)
      fix cs' tid
      assume "uuids_fresh ?s cs' \<and> tid \<in> completed_ids ?s"
      then show "tid \<in> completed_ids (calls ?s cs') \<and> tid \<notin> pending_ids (calls ?s cs')"
        using stays[of cs' tid] by simp
    qed
  qed
qed

text \<open>
  A session for C3: a verifier whose \<open>execute\<close> throws is registered, a task is created for
  it and executed. The only assigned worker fails, and the task is in the completed
  collection and not in the pending one.
\<close>

theorem task_lifecycle_witness:
  "uuids_fresh (new_MCPServer ''srv-1'' None 0) example_calls
   \<and> ''uuid-1'' \<in> set (created_ids example_calls)
   \<and> ''uuid-1'' \<in> completed_ids (calls (new_MCPServer ''srv-1'' None 0) example_calls)
   \<and> ''uuid-1'' \<notin> pending_ids (calls (new_MCPServer ''srv-1'' None 0) example_calls)"
proof -
  have h: "uuids_fresh (new_MCPServer ''srv-1'' None 0) example_calls"
    by (simp add: example_calls_def pending_ids_def completed_ids_def getPendingTasks_def
                  getCompletedTasks_def new_MCPServer_def registerAgent_def createTask_def Let_def)
  have c: "''uuid-1'' \<in> set (created_ids example_calls)"
    by (simp add: example_calls_def)
  have d: "''uuid-1'' \<in> completed_ids (calls (new_MCPServer ''srv-1'' None 0) example_calls)"
    by (simp add: example_calls_def completed_ids_def getCompletedTasks_def executeTask_eq
                  new_MCPServer_def registerAgent_def createTask_def Let_def)
  show ?thesis using task_lifecycle[OF h] h c d by blast
qed

subsection \<open>Workflow results\<close>

text \<open>
  C5, as the code has it. The current workflow is \<open>w\<close>, its stage ids are pairwise distinct,
  and \<open>st\<close> is one of its stages, after the stages \<open>pre\<close> and before the stages \<open>post\<close>. Let
  \<open>rs\<close> be the list that the loop over the tasks of \<open>st\<close> accumulates when it runs after the
  stages \<open>pre\<close>. Then
  \<^item> \<open>rs\<close> is the concatenation, in task order, of the response lists that \<open>executeTask\<close>
    returns for the tasks of \<open>st\<close>;
  \<^item> \<open>executeWorkflow\<close> returns a map whose keys, in insertion order, are the stage ids in
    the order of definition, and which maps the id of \<open>st\<close> to \<open>rs\<close>;
  \<^item> once the tasks of \<open>st\<close> are done, \<open>rs\<close> is written to the shared context under the key
    \<open>stage_<stageId>_results\<close> (underscores);
  \<^item> the stages \<open>post\<close> are dispatched from the server that holds that entry: the map
    and the server that \<open>executeWorkflow\<close> ends with are those of running \<open>post\<close> from there;
  \<^item> the entry is still there when \<open>executeWorkflow\<close> returns.
\<close>

theorem executeWorkflow_stage_results:
  assumes "currentWorkflow orch = Some w"
    and "distinct (map stage_id (stages w))"
    and "stages w = pre @ st # post"
    and "executeStages s clock 0 pre [] = (resA, preA, sA, nA)"
    and "executeStageTasks sA clock nA (tasks st) [] = (rs, ts', sT, nT)"
  shows "(\<forall>now. rs = concat (map (\<lambda>t. fst (executeTask sA t now)) (tasks st)))
       \<and> (\<exists>results.
            fst (executeWorkflow orch s clock) = Inr results
            \<and> map fst results = map stage_id (stages w)
            \<and> Map_get results (stage_id st) = Some rs)
       \<and> getSharedContextValue
            (updateSharedContext sT (''stage_'' @ stage_id st @ ''_results'') (UResponses rs))
            (''stage_'' @ stage_id st @ ''_results'') = Some (UResponses rs)
       \<and> fst (executeStages s clock 0 (stages w) [])
           = fst (executeStages
                    (updateSharedContext sT (''stage_'' @ stage_id st @ ''_results'') (UResponses rs))
                    clock nT post (Map_set (stage_id st) rs resA))
       \<and> fst (snd (snd (executeStages s clock 0 (stages w) [])))
           = fst (snd (snd (executeStages
                    (updateSharedContext sT (''stage_'' @ stage_id st @ ''_results'') (UResponses rs))
                    clock nT post (Map_set (stage_id st) rs resA))))
       \<and> getSharedContextValue (snd (snd (executeWorkflow orch s clock)))
            (''stage_'' @ stage_id st @ ''_results'') = Some (UResponses rs)"
proof -
  let ?key = "stage_key (stage_id st)"
  let ?s2 = "updateSharedContext sT ?key (UResponses rs)"
  let ?res1 = "Map_set (stage_id st) rs resA"
  obtain results post' s3 n3 where
    p: "executeStages ?s2 clock nT post ?res1 = (results, post', s3, n3)"
    by (cases "executeStages ?s2 clock nT post ?res1") auto
  have one: "executeStages sA clock nA (st # post) resA = (results, st\<lparr>tasks := ts'\<rparr> # post', s3, n3)"
    using assms(5) p by (simp add: Let_def)
  have full: "executeStages s clock 0 (stages w) [] = (results, preA @ st\<lparr>tasks := ts'\<rparr> # post', s3, n3)"
    unfolding assms(3) executeStages_append using assms(4) one by simp
  have wf: "executeWorkflow orch s clock
              = (Inr results, orch\<lparr>currentWorkflow := Some (w\<lparr>stages := preA @ st\<lparr>tasks := ts'\<rparr> # post'\<rparr>)\<rparr>, s3)"
    using assms(1) full by (simp add: executeWorkflow_def)
  have keys: "map fst results = map stage_id (stages w)"
    using executeStages_keys[of "[]" "stages w" s clock 0] assms(2) full by simp
  have notin: "stage_id st \<notin> set (map stage_id post)"
    using assms(2,3) by auto
  have get: "Map_get results (stage_id st) = Some rs"
    using executeStages_other_key[OF notin, of ?s2 clock nT ?res1] p by (simp add: Map_get_Map_set)
  have now: "getSharedContextValue ?s2 ?key = Some (UResponses rs)"
    by (simp add: getSharedContextValue_def updateSharedContext_def Map_get_Map_set)
  have final: "getSharedContextValue s3 ?key = Some (UResponses rs)"
    using executeStages_stage_key[OF notin, of ?s2 clock nT ?res1] p now by simp
  have k: "?key = ''stage_'' @ stage_id st @ ''_results''" by (simp add: stage_key_def)
  have acc: "rs = concat (map (\<lambda>t. fst (executeTask sA t now)) (tasks st))" for now
    using executeStageTasks_responses[of sA clock nA "tasks st" "[]" now] assms(5) by simp
  show ?thesis
  proof (intro conjI)
    show "\<forall>now. rs = concat (map (\<lambda>t. fst (executeTask sA t now)) (tasks st))"
      using acc by blast
    show "\<exists>results. fst (executeWorkflow orch s clock) = Inr results
            \<and> map fst results = map stage_id (stages w)
            \<and> Map_get results (stage_id st) = Some rs"
      using wf keys get by simp
    show "getSharedContextValue
            (updateSharedContext sT (''stage_'' @ stage_id st @ ''_results'') (UResponses rs))
            (''stage_'' @ stage_id st @ ''_results'') = Some (UResponses rs)"
      using now unfolding k .
    show "fst (executeStages s clock 0 (stages w) [])
           = fst (executeStages
                    (updateSharedContext sT (''stage_'' @ stage_id st @ ''_results'') (UResponses rs))
                    clock nT post (Map_set (stage_id st) rs resA))"
      using full p unfolding k by simp
    show "fst (snd (snd (executeStages s clock 0 (stages w) [])))
           = fst (snd (snd (executeStages
                    (updateSharedContext sT (''stage_'' @ stage_id st @ ''_results'') (UResponses rs))
                    clock nT post (Map_set (stage_id st) rs resA))))"
      using full p unfolding k by simp
    show "getSharedContextValue (snd (snd (executeWorkflow orch s clock)))
            (''stage_'' @ stage_id st @ ''_results'') = Some (UResponses rs)"
      using final wf unfolding k by simp
  qed
qed

theorem executeWorkflow_stage_results_witness:
  "getSharedContextValue
     (snd (snd (executeWorkflow example_orchestrator staffed_server example_clock)))
     (''stage_'' @ ''S1'' @ ''_results'')
   = Some (UResponses
       [planner_response ''task-001'', architect_response ''task-002'', planner_response ''task-002''])"
proof -
  let ?w = "fst (defineWorkflow new_WorkflowOrchestrator ''Build'' ''Build the product'' ''prompt''
                   example_stages ''wf-1'' 500)"
  let ?X = "executeStageTasks staffed_server example_clock 0 (tasks planning_stage) []"
  have h1: "currentWorkflow example_orchestrator = Some ?w"
    by (simp add: example_orchestrator_def defineWorkflow_def Let_def)
  have h2: "distinct (map stage_id (stages ?w))"
    by (simp add: defineWorkflow_def Let_def example_stages_def planning_stage_def
                  verification_stage_def createStage_def)
  have h3: "stages ?w = [] @ planning_stage # [verification_stage]"
    by (simp add: defineWorkflow_def Let_def example_stages_def)
  have h4: "executeStages staffed_server example_clock 0 [] [] = ([], [], staffed_server, 0)"
    by simp
  have h5: "?X = (fst ?X, fst (snd ?X), fst (snd (snd ?X)), snd (snd (snd ?X)))"
    by simp
  note inst = executeWorkflow_stage_results[OF h1 h2 h3 h4 h5]
  have "fst ?X = concat (map (\<lambda>t. fst (executeTask staffed_server t 0)) (tasks planning_stage))"
    using inst by blast
  then have rs: "fst ?X
      = [planner_response ''task-001'', architect_response ''task-002'', planner_response ''task-002'']"
    by (simp add: planning_stage_def createStage_def example_defs executeTask_def findIndex_def)
  have sid: "stage_id planning_stage = ''S1''"
    by (simp add: planning_stage_def createStage_def)
  have "getSharedContextValue
          (snd (snd (executeWorkflow example_orchestrator staffed_server example_clock)))
          (''stage_'' @ stage_id planning_stage @ ''_results'') = Some (UResponses (fst ?X))"
    using inst by blast
  then show ?thesis by (simp add: rs sid)
qed

text \<open>
  C5 as stated fails: after the workflow of the two stages S1 and S2 has run, nothing is
  stored under the key "stage:S1:results"; the results of S1, the responses of its two tasks
  in task order, are under "stage_S1_results".
\<close>

theorem executeWorkflow_colon_key_counterexample:
  "fst (executeWorkflow example_orchestrator staffed_server example_clock)
     = Inr [(''S1'', [planner_response ''task-001'', architect_response ''task-002'',
                      planner_response ''task-002'']),
            (''S2'', [planner_response ''task-003''])]
   \<and> getSharedContextValue (snd (snd (executeWorkflow example_orchestrator staffed_server example_clock)))
       ''stage:S1:results'' = None
   \<and> getSharedContextValue (snd (snd (executeWorkflow example_orchestrator staffed_server example_clock)))
       ''stage_S1_results''
     = Some (UResponses [planner_response ''task-001'', architect_response ''task-002'',
                         planner_response ''task-002''])"
  by (simp add: example_orchestrator_def example_stages_def planning_stage_def verification_stage_def
        defineWorkflow_def createStage_def
        new_WorkflowOrchestrator_def executeWorkflow_def example_defs executeTask_def findIndex_def
        getSharedContextValue_def updateSharedContext_def task_key_def stage_key_def)

text \<open>
  The result map is keyed by stage id: of two stages with the id S1, the map keeps one
  entry, with the list of the later stage.
\<close>

lemma executeWorkflow_repeated_stage_id:
  "fst (executeWorkflow repeated_id_orchestrator staffed_server example_clock)
     = Inr [(''S1'', [planner_response ''task-009''])]"
  by (simp add: repeated_id_orchestrator_def planning_stage_def repeated_stage_def
        defineWorkflow_def createStage_def
        new_WorkflowOrchestrator_def executeWorkflow_def example_defs executeTask_def findIndex_def
        updateSharedContext_def task_key_def stage_key_def)

end
